theory Spec2Isabelle
  imports Main
begin

section \<open>The irc provider: data model\<close>

text \<open>
  The factory \<^verbatim>\<open>irc\<close> of \<^verbatim>\<open>src/ng/providers/irc.provider.js\<close> keeps a table
  \<^verbatim>\<open>clients = {read, write, whisper}\<close> of tmi.js client objects (or \<^verbatim>\<open>null\<close>), two status
  flags on the outward emitter \<^verbatim>\<open>ee\<close> and reads the live configuration object
  \<^verbatim>\<open>settings\<close>. JavaScript arrays and client objects are references, so both live in a
  store: an array reference is an address into \<open>arrays\<close>, a client reference an address
  into \<open>objs\<close>. \<^verbatim>\<open>null\<close> is \<open>None\<close>. Calls made on a transport client and events
  emitted on \<^verbatim>\<open>ee\<close> are appended to one ordered \<open>trace\<close>. \<^verbatim>\<open>console.log\<close> and the
  \<^verbatim>\<open>process.nextTick\<close> that schedules a later digest change nothing of this state and are
  left out.

  The transport client of tmi.js is not part of the file. What is taken from it: its
  constructor keeps the settings object it is given as it is; \<^verbatim>\<open>connect\<close>,
  \<^verbatim>\<open>disconnect\<close>, \<^verbatim>\<open>join\<close>, \<^verbatim>\<open>part\<close>, \<^verbatim>\<open>say\<close> and \<^verbatim>\<open>whisper\<close> are requests whose
  outcome arrives later as events; its event emitter behaves as the one of Node.js
  (listeners run in registration order, \<^verbatim>\<open>emit\<close> runs the listeners registered when
  it starts, a \<^verbatim>\<open>once\<close> listener is removed before it runs).
\<close>

type_synonym channel = string
type_synonym addr = nat
type_synonym cid = nat

text \<open>The keys of \<^verbatim>\<open>clients\<close>, in their insertion order.\<close>

datatype role = Read | Write | Whisper

definition roles :: "role list" where
  "roles = [Read, Write, Whisper]"

datatype error = TypeError

text \<open>
  The closures the file registers as listeners on a client. Each one is registered under
  one event name, and either with \<^verbatim>\<open>on\<close>/\<^verbatim>\<open>addListener\<close> or with \<^verbatim>\<open>once\<close>:
  \<^item> \<open>Forward ev\<close>: the callback of \<^verbatim>\<open>forwardEvents\<close> for event \<open>ev\<close>;
  \<^item> \<open>ReadDisconnected\<close>: the 'disconnected' handler of \<^verbatim>\<open>create\<close> (line 106);
  \<^item> \<open>ReadConnected\<close>: the 'connected' handler of \<^verbatim>\<open>create\<close> (line 116);
  \<^item> \<open>EmitDisconnectedOnce\<close>: the one-shot closure of \<^verbatim>\<open>onlyEmitDisconnectedOnce\<close> (line 128);
  \<^item> \<open>RearmDisconnected\<close>: \<^verbatim>\<open>onlyEmitDisconnectedOnce\<close> itself as one-shot 'connected' listener (line 132);
  \<^item> \<open>BadLoginCheck\<close>: the closure of \<^verbatim>\<open>attachBadLoginCheck\<close> (line 222).
\<close>

datatype handler =
    Forward string
  | ReadDisconnected
  | ReadConnected
  | EmitDisconnectedOnce
  | RearmDisconnected
  | BadLoginCheck

fun eventOf :: "handler \<Rightarrow> string" where
  "eventOf (Forward ev) = ev"
| "eventOf ReadDisconnected = ''disconnected''"
| "eventOf ReadConnected = ''connected''"
| "eventOf EmitDisconnectedOnce = ''disconnected''"
| "eventOf RearmDisconnected = ''connected''"
| "eventOf BadLoginCheck = ''disconnected''"

fun isOnce :: "handler \<Rightarrow> bool" where
  "isOnce EmitDisconnectedOnce = True"
| "isOnce RearmDisconnected = True"
| "isOnce _ = False"

text \<open>
  Calls on a transport client. \<^verbatim>\<open>part\<close> carries an optional channel: \<open>None\<close> is the
  JavaScript \<^verbatim>\<open>undefined\<close> that an array read past the end yields.
\<close>

datatype call =
    Connect
  | Disconnect
  | RemoveAllListeners
  | Join channel
  | Part "channel option"
  | Say channel string
  | WhisperTo string string
  | IsMod channel string

datatype effect =
    Transport cid call
  | Emitted string "string list"

text \<open>
  A tmi.js client object: the settings it was constructed with (the deep copy
  \<^verbatim>\<open>setts\<close>), the property \<^verbatim>\<open>tcCurrentChannels\<close> the provider adds, and its listeners in
  registration order.
\<close>

record tmiClient =
  optDebug :: bool
  connRandom :: string
  connTimeout :: nat
  connReconnect :: bool
  identUsername :: string
  identPassword :: string
  optsChannels :: addr
  tcCurrentChannels :: addr
  listeners :: "handler list"

record state =
  arrays :: "addr \<Rightarrow> channel list"
  nextArr :: addr
  objs :: "cid \<Rightarrow> tmiClient"
  nextObj :: cid
  clients :: "role \<Rightarrow> cid option"
  ready :: bool
  badLogin :: "string option"
  username :: string
  password :: string
  channelsRef :: addr
  trace :: "effect list"
  observing :: bool
  pending :: "role list"
  cbCalls :: nat
  transportIsMod :: "cid \<Rightarrow> channel \<Rightarrow> string \<Rightarrow> bool"

text \<open>
  \<open>badLogin\<close> is \<^verbatim>\<open>false\<close> (\<open>None\<close>) or the reason string. \<open>username\<close>, \<open>password\<close> are
  \<^verbatim>\<open>settings.identity\<close>, \<open>channelsRef\<close> is the array \<^verbatim>\<open>settings.channels\<close> refers to.
  \<open>observing\<close> says that \<^verbatim>\<open>onBadLogin\<close> has installed its \<^verbatim>\<open>Object.observe\<close> on
  \<^verbatim>\<open>clients\<close>; \<open>pending\<close> holds the names of the change records not yet delivered to it.
  \<open>cbCalls\<close> counts the invocations of the callback \<^verbatim>\<open>cb\<close> of \<^verbatim>\<open>onBadLogin\<close>, which
  line 65 binds to \<^verbatim>\<open>destroy\<close>. \<open>transportIsMod\<close> is what a client's own \<^verbatim>\<open>isMod\<close>
  answers; the provider never changes it.
\<close>

type_synonym outcome = "error option \<times> state"

definition andThen :: "(state \<Rightarrow> outcome) \<Rightarrow> (state \<Rightarrow> outcome) \<Rightarrow> state \<Rightarrow> outcome" where
  "andThen f g s = (case f s of (None, s') \<Rightarrow> g s' | (Some e, s') \<Rightarrow> (Some e, s'))"

definition done_ok :: "state \<Rightarrow> outcome" where
  "done_ok s = (None, s)"

definition throw :: "error \<Rightarrow> state \<Rightarrow> outcome" where
  "throw e s = (Some e, s)"

section \<open>Primitive effects\<close>

definition logEffect :: "effect \<Rightarrow> state \<Rightarrow> state" where
  "logEffect e s = s\<lparr>trace := trace s @ [e]\<rparr>"

definition allocArray :: "channel list \<Rightarrow> state \<Rightarrow> addr \<times> state" where
  "allocArray xs s =
     (nextArr s, s\<lparr>arrays := (arrays s)(nextArr s := xs), nextArr := Suc (nextArr s)\<rparr>)"

definition updClient :: "cid \<Rightarrow> (tmiClient \<Rightarrow> tmiClient) \<Rightarrow> state \<Rightarrow> state" where
  "updClient c f s = s\<lparr>objs := (objs s)(c := f (objs s c))\<rparr>"

text \<open>
  An assignment \<^verbatim>\<open>clients[key] = v\<close>. Every such assignment in the file changes the
  value, so an installed observer gets an 'update' change record for it.
\<close>

definition setClient :: "role \<Rightarrow> cid option \<Rightarrow> state \<Rightarrow> state" where
  "setClient key v s =
     s\<lparr>clients := (clients s)(key := v),
       pending := (if observing s then pending s @ [key] else pending s)\<rparr>"

text \<open>\<^verbatim>\<open>emitter.on(ev, h)\<close>, \<^verbatim>\<open>addListener\<close> and \<^verbatim>\<open>once\<close> append to the listeners.\<close>

definition addListener :: "cid \<Rightarrow> handler \<Rightarrow> state \<Rightarrow> state" where
  "addListener c h s = updClient c (\<lambda>cl. cl\<lparr>listeners := listeners cl @ [h]\<rparr>) s"

definition removeAllListeners :: "cid \<Rightarrow> state \<Rightarrow> state" where
  "removeAllListeners c s =
     logEffect (Transport c RemoveAllListeners) (updClient c (\<lambda>cl. cl\<lparr>listeners := []\<rparr>) s)"

text \<open>A method call on \<^verbatim>\<open>clients[key]\<close>: a \<^verbatim>\<open>TypeError\<close> when the entry is \<^verbatim>\<open>null\<close>.\<close>

definition onClient :: "role \<Rightarrow> (cid \<Rightarrow> state \<Rightarrow> state) \<Rightarrow> state \<Rightarrow> outcome" where
  "onClient key f s =
     (case clients s key of None \<Rightarrow> throw TypeError s | Some c \<Rightarrow> done_ok (f c s))"

section \<open>Public members\<close>

definition credentialsValid :: "state \<Rightarrow> bool" where
  "credentialsValid s = (username s \<noteq> [] \<and> password s \<noteq> [])"

definition isMod :: "channel \<Rightarrow> string \<Rightarrow> state \<Rightarrow> (error + bool) \<times> state" where
  "isMod channel user s =
     (case clients s Write of
        None \<Rightarrow> (Inl TypeError, s)
      | Some c \<Rightarrow> (Inr (transportIsMod s c channel user), logEffect (Transport c (IsMod channel user)) s))"

definition say :: "channel \<Rightarrow> string \<Rightarrow> state \<Rightarrow> outcome" where
  "say channel message = onClient Write (\<lambda>c. logEffect (Transport c (Say channel message)))"

definition whisper :: "string \<Rightarrow> string \<Rightarrow> state \<Rightarrow> outcome" where
  "whisper user message = onClient Whisper (\<lambda>c. logEffect (Transport c (WhisperTo user message)))"

section \<open>Private methods\<close>

subsection \<open>destroy\<close>

text \<open>The body of the \<^verbatim>\<open>_.forEach\<close> callback of \<^verbatim>\<open>destroy\<close> for one key.\<close>

definition destroyOne :: "role \<Rightarrow> state \<Rightarrow> state" where
  "destroyOne key s =
     (case clients s key of
        None \<Rightarrow> s
      | Some c \<Rightarrow> setClient key None (logEffect (Transport c Disconnect) (removeAllListeners c s)))"

definition destroy :: "state \<Rightarrow> state" where
  "destroy s = fold destroyOne roles s"

subsection \<open>create\<close>

definition readEvents :: "string list" where
  "readEvents =
     [''action'', ''chat'', ''clearchat'', ''connected'', ''connecting'', ''crash'',
      ''hosted'', ''hosting'', ''slowmode'', ''subanniversary'',
      ''subscriber'', ''subscription'', ''timeout'', ''unhost'']"

text \<open>
  One round of the \<^verbatim>\<open>_.forEach(clients, ...)\<close> of \<^verbatim>\<open>create\<close>. \<^verbatim>\<open>angular.copy\<close> is a
  deep copy, so \<^verbatim>\<open>setts.channels\<close> is a new array with the elements of
  \<^verbatim>\<open>settings.channels\<close>; for the key 'whisper' it is replaced by a new empty array. An
  array is truthy, so the guard \<^verbatim>\<open>if (setts.channels)\<close> holds and
  \<^verbatim>\<open>tcCurrentChannels\<close> becomes one more copy.
\<close>

definition createOne :: "role \<Rightarrow> state \<Rightarrow> state" where
  "createOne key s =
     (let (copied, s1) = allocArray (arrays s (channelsRef s)) s;
          (chans, s2) = (if key = Whisper then allocArray [] s1 else (copied, s1));
          (tc, s3) = allocArray (arrays s2 chans) s2;
          c = nextObj s3;
          cl = \<lparr>optDebug = False,
                connRandom = (if key = Whisper then ''group'' else ''chat''),
                connTimeout = 10000, connReconnect = True,
                identUsername = username s, identPassword = password s,
                optsChannels = chans, tcCurrentChannels = tc, listeners = []\<rparr>;
          s4 = s3\<lparr>objs := (objs s3)(c := cl), nextObj := Suc c\<rparr>;
          s5 = setClient key (Some c) s4
      in logEffect (Transport c Connect) s5)"

definition forwardEvents :: "cid \<Rightarrow> string list \<Rightarrow> state \<Rightarrow> state" where
  "forwardEvents emitter events s = fold (\<lambda>event. addListener emitter (Forward event)) events s"

definition onlyEmitDisconnectedOnce :: "state \<Rightarrow> outcome" where
  "onlyEmitDisconnectedOnce = onClient Read (\<lambda>c. addListener c EmitDisconnectedOnce)"

definition create :: "state \<Rightarrow> outcome" where
  "create s =
     (let s1 = destroy s;
          s2 = s1\<lparr>badLogin := None\<rparr>;
          s3 = fold createOne roles s2
      in andThen (onClient Read (\<lambda>c. forwardEvents c readEvents))
        (andThen (onClient Whisper (\<lambda>c. forwardEvents c [''whisper'']))
        (andThen (onClient Read (\<lambda>c. addListener c ReadDisconnected))
        (andThen (onClient Read (\<lambda>c. addListener c ReadConnected))
         onlyEmitDisconnectedOnce))) s3)"

subsection \<open>Channel reconciliation\<close>

text \<open>
  \<^verbatim>\<open>joinChannels\<close>: \<^verbatim>\<open>forEach\<close> visits the elements the array \<^verbatim>\<open>settings.channels\<close>
  has when the loop starts, in order. The callback pushes \<open>channel\<close> onto
  \<^verbatim>\<open>tcCurrentChannels\<close> only when \<^verbatim>\<open>indexOf\<close> does not find it there, so even when both
  names refer to one array the visited array is not changed under the loop, and the
  loop runs over the elements read at its start. A \<^verbatim>\<open>null\<close> client raises in the first
  round (and not at all when there is no round).
\<close>

fun joinLoop :: "cid option \<Rightarrow> channel list \<Rightarrow> state \<Rightarrow> outcome" where
  "joinLoop client [] s = done_ok s"
| "joinLoop client (channel # rest) s =
     (case client of
        None \<Rightarrow> throw TypeError s
      | Some c \<Rightarrow>
          (let tc = tcCurrentChannels (objs s c) in
           if channel \<notin> set (arrays s tc)
           then joinLoop client rest
                  ((logEffect (Transport c (Join channel)) s)
                     \<lparr>arrays := (arrays s)(tc := arrays s tc @ [channel])\<rparr>)
           else joinLoop client rest s))"

definition joinChannels :: "cid option \<Rightarrow> state \<Rightarrow> outcome" where
  "joinChannels client s = joinLoop client (arrays s (channelsRef s)) s"

text \<open>
  \<^verbatim>\<open>leaveChannels\<close>: \<open>leaveLoop c n\<close> runs the rounds \<open>i = n - 1, ..., 0\<close> of the
  \<^verbatim>\<open>for\<close> loop, reading both arrays from the store in every round. \<^verbatim>\<open>splice(i, 1)\<close>
  removes the element at \<open>i\<close>. A read past the end would give \<^verbatim>\<open>undefined\<close>, which
  \<^verbatim>\<open>indexOf\<close> does not find among strings, so \<^verbatim>\<open>part(undefined)\<close> would be called and
  \<^verbatim>\<open>splice\<close> would remove nothing.
\<close>

fun leaveLoop :: "cid \<Rightarrow> nat \<Rightarrow> state \<Rightarrow> state" where
  "leaveLoop c 0 s = s"
| "leaveLoop c (Suc i) s =
     (let tc = tcCurrentChannels (objs s c);
          cur = arrays s tc
      in if i < length cur
         then (if cur ! i \<notin> set (arrays s (channelsRef s))
               then leaveLoop c i
                      ((logEffect (Transport c (Part (Some (cur ! i)))) s)
                         \<lparr>arrays := (arrays s)(tc := take i cur @ drop (Suc i) cur)\<rparr>)
               else leaveLoop c i s)
         else leaveLoop c i (logEffect (Transport c (Part None)) s))"

definition leaveChannels :: "cid option \<Rightarrow> state \<Rightarrow> outcome" where
  "leaveChannels client s =
     (case client of
        None \<Rightarrow> throw TypeError s
      | Some c \<Rightarrow> done_ok (leaveLoop c (length (arrays s (tcCurrentChannels (objs s c)))) s))"

text \<open>The callback of \<^verbatim>\<open>syncChannels\<close> for one element of \<^verbatim>\<open>[clients.read, clients.write]\<close>.\<close>

definition syncClient :: "cid option \<Rightarrow> state \<Rightarrow> outcome" where
  "syncClient client = andThen (joinChannels client) (leaveChannels client)"

definition syncChannels :: "state \<Rightarrow> outcome" where
  "syncChannels s = andThen (syncClient (clients s Read)) (syncClient (clients s Write)) s"

subsection \<open>Listeners and event dispatch\<close>

definition badLoginReason :: string where
  "badLoginReason = ''Login unsuccessful.''"

text \<open>\<^verbatim>\<open>reason === 'Login unsuccessful.'\<close>, \<open>reason\<close> being the first argument or \<^verbatim>\<open>undefined\<close>.\<close>

fun isBadLogin :: "string list \<Rightarrow> bool" where
  "isBadLogin [] = False"
| "isBadLogin (reason # _) = (reason = badLoginReason)"

definition setBadLogin :: "state \<Rightarrow> state" where
  "setBadLogin s = s\<lparr>badLogin := Some badLoginReason, password := []\<rparr>"

fun runHandler :: "handler \<Rightarrow> string list \<Rightarrow> state \<Rightarrow> outcome" where
  "runHandler (Forward event) args s = done_ok (logEffect (Emitted event args) s)"
| "runHandler ReadDisconnected args s =
     done_ok ((if isBadLogin args then setBadLogin s else s)\<lparr>ready := False\<rparr>)"
| "runHandler ReadConnected args s = done_ok (s\<lparr>ready := True\<rparr>)"
| "runHandler EmitDisconnectedOnce args s =
     onClient Read (\<lambda>c. addListener c RearmDisconnected) (logEffect (Emitted ''disconnected'' args) s)"
| "runHandler RearmDisconnected args s = onlyEmitDisconnectedOnce s"
| "runHandler BadLoginCheck args s =
     done_ok (if isBadLogin args
              then destroy ((setBadLogin s)\<lparr>cbCalls := Suc (cbCalls s)\<rparr>)
              else s)"

text \<open>
  \<^verbatim>\<open>emit\<close> of the client's event emitter: the listeners registered for the event when
  \<^verbatim>\<open>emit\<close> starts are called in registration order; a one-shot listener is removed from
  the client just before it is called; an exception ends the dispatch.
\<close>

fun runListeners :: "cid \<Rightarrow> handler list \<Rightarrow> string list \<Rightarrow> state \<Rightarrow> outcome" where
  "runListeners c [] args s = done_ok s"
| "runListeners c (h # hs) args s =
     andThen (runHandler h args) (runListeners c hs args)
       (if isOnce h then updClient c (\<lambda>cl. cl\<lparr>listeners := remove1 h (listeners cl)\<rparr>) s else s)"

definition listenersFor :: "string \<Rightarrow> cid \<Rightarrow> state \<Rightarrow> handler list" where
  "listenersFor event c s = filter (\<lambda>h. eventOf h = event) (listeners (objs s c))"

definition emitOn :: "cid \<Rightarrow> string \<Rightarrow> string list \<Rightarrow> state \<Rightarrow> outcome" where
  "emitOn c event args s = runListeners c (listenersFor event c s) args s"

subsection \<open>Watchers\<close>

definition attachBadLoginCheck :: "state \<Rightarrow> outcome" where
  "attachBadLoginCheck = onClient Read (\<lambda>c. addListener c BadLoginCheck)"

text \<open>The observer callback of \<^verbatim>\<open>onBadLogin\<close> on a list of change names.\<close>

fun observerCallback :: "role list \<Rightarrow> state \<Rightarrow> outcome" where
  "observerCallback [] s = done_ok s"
| "observerCallback (name # rest) s =
     (if name = Read then andThen attachBadLoginCheck (observerCallback rest) s
      else observerCallback rest s)"

text \<open>Delivery of the pending change records, at the end of the turn that made them.\<close>

definition deliverChanges :: "state \<Rightarrow> outcome" where
  "deliverChanges s = observerCallback (pending s) (s\<lparr>pending := []\<rparr>)"

definition onBadLogin :: "state \<Rightarrow> outcome" where
  "onBadLogin s =
     andThen (\<lambda>s. if clients s Read \<noteq> None then attachBadLoginCheck s else done_ok s)
             (\<lambda>s. done_ok (s\<lparr>observing := True\<rparr>)) s"

text \<open>The handler \<^verbatim>\<open>onChannelsChange\<close> gives to \<^verbatim>\<open>$watchCollection\<close>, with \<^verbatim>\<open>cb = syncChannels\<close>.\<close>

definition onChannelsChange :: "addr \<Rightarrow> addr \<Rightarrow> state \<Rightarrow> outcome" where
  "onChannelsChange newV oldV s = (if newV \<noteq> oldV then syncChannels s else done_ok s)"

text \<open>The listeners \<^verbatim>\<open>onCredentialsValidChange\<close> gives to \<^verbatim>\<open>$watch\<close>.\<close>

definition onValidCredentials :: "bool \<Rightarrow> bool \<Rightarrow> state \<Rightarrow> outcome" where
  "onValidCredentials newv oldv s = (if oldv \<noteq> newv \<and> newv then create s else done_ok s)"

definition onInvalidCredentials :: "bool \<Rightarrow> bool \<Rightarrow> state \<Rightarrow> outcome" where
  "onInvalidCredentials newv oldv s =
     (if oldv \<noteq> newv \<and> \<not> newv then done_ok (destroy s) else done_ok s)"

subsection \<open>Start of the factory\<close>

text \<open>Lines 63 to 65: the factory body up to the installation of the bad-login check.\<close>

definition startup :: "state \<Rightarrow> outcome" where
  "startup s = andThen (\<lambda>s. if credentialsValid s then create s else done_ok s) onBadLogin s"

text \<open>The state the factory starts from, for given settings.\<close>

definition blankClient :: tmiClient where
  "blankClient = \<lparr>optDebug = False, connRandom = [], connTimeout = 0, connReconnect = False,
     identUsername = [], identPassword = [], optsChannels = 0, tcCurrentChannels = 0,
     listeners = []\<rparr>"

definition initState :: "string \<Rightarrow> string \<Rightarrow> channel list \<Rightarrow> state" where
  "initState user pass chans =
     \<lparr>arrays = (\<lambda>_. [])(0 := chans), nextArr = 1,
      objs = (\<lambda>_. blankClient), nextObj = 0,
      clients = (\<lambda>_. None), ready = False, badLogin = None,
      username = user, password = pass, channelsRef = 0,
      trace = [], observing = False, pending = [], cbCalls = 0,
      transportIsMod = (\<lambda>_ _ _. False)\<rparr>"

subsection \<open>The configuration changing from outside\<close>

text \<open>
  The owner of \<^verbatim>\<open>settings\<close> may change the channel array in place, or make
  \<^verbatim>\<open>settings.channels\<close> refer to a new array.
\<close>

definition mutateChannels :: "channel list \<Rightarrow> state \<Rightarrow> state" where
  "mutateChannels xs s = s\<lparr>arrays := (arrays s)(channelsRef s := xs)\<rparr>"

definition replaceChannels :: "channel list \<Rightarrow> state \<Rightarrow> state" where
  "replaceChannels xs s = (let (a, s1) = allocArray xs s in s1\<lparr>channelsRef := a\<rparr>)"

section \<open>Auxiliary notions for the statements\<close>

text \<open>The calls \<^verbatim>\<open>destroy\<close> makes on the holder of one key.\<close>

definition destroyedCalls :: "cid option \<Rightarrow> effect list" where
  "destroyedCalls v = (case v of None \<Rightarrow> [] | Some c \<Rightarrow> [Transport c RemoveAllListeners, Transport c Disconnect])"

text \<open>The client object one round of \<^verbatim>\<open>create\<close> constructs, and the state \<^verbatim>\<open>create\<close> ends in.\<close>

definition newClient :: "role \<Rightarrow> state \<Rightarrow> tmiClient" where
  "newClient key s =
     \<lparr>optDebug = False, connRandom = (if key = Whisper then ''group'' else ''chat''),
      connTimeout = 10000, connReconnect = True,
      identUsername = username s, identPassword = password s,
      optsChannels = (if key = Whisper then Suc (nextArr s) else nextArr s),
      tcCurrentChannels = (if key = Whisper then Suc (Suc (nextArr s)) else Suc (nextArr s)),
      listeners = []\<rparr>"

definition created :: "state \<Rightarrow> state" where
  "created s =
     (let n = nextObj s in
      addListener n EmitDisconnectedOnce (addListener n ReadConnected (addListener n ReadDisconnected
        (forwardEvents (Suc (Suc n)) [''whisper''] (forwardEvents n readEvents
          (createOne Whisper (createOne Write (createOne Read ((destroy s)\<lparr>badLogin := None\<rparr>)))))))))"

text \<open>
  What one reconciliation of a client does, as functions of the desired list \<open>D\<close>
  and the tracked list \<open>J\<close>: the channels joined (in order), the tracked list
  afterwards, and the channels parted (in order).
\<close>

fun newJoins :: "channel list \<Rightarrow> channel list \<Rightarrow> channel list" where
  "newJoins [] joined = []"
| "newJoins (channel # rest) joined =
     (if channel \<in> set joined then newJoins rest joined
      else channel # newJoins rest (joined @ [channel]))"
definition joinedAfter :: "channel list \<Rightarrow> channel list \<Rightarrow> channel list" where
  "joinedAfter D J = filter (\<lambda>ch. ch \<in> set D) J @ newJoins D J"

definition partsFor :: "channel list \<Rightarrow> channel list \<Rightarrow> channel list" where
  "partsFor D J = rev (filter (\<lambda>ch. ch \<notin> set D) J)"
text \<open>
  The effects an operation added to the trace, and among them the channels of the
  \<^verbatim>\<open>join\<close> and \<^verbatim>\<open>part\<close> calls on one client.
\<close>

fun joinOn :: "cid \<Rightarrow> effect \<Rightarrow> channel list" where
  "joinOn c (Transport c' (Join ch)) = (if c' = c then [ch] else [])"
| "joinOn c _ = []"

fun partOn :: "cid \<Rightarrow> effect \<Rightarrow> channel option list" where
  "partOn c (Transport c' (Part ch)) = (if c' = c then [ch] else [])"
| "partOn c _ = []"

definition issued :: "state \<Rightarrow> state \<Rightarrow> effect list" where
  "issued s s' = drop (length (trace s)) (trace s')"

definition joinsIssued :: "cid \<Rightarrow> state \<Rightarrow> state \<Rightarrow> channel list" where
  "joinsIssued c s s' = concat (map (joinOn c) (issued s s'))"

definition partsIssued :: "cid \<Rightarrow> state \<Rightarrow> state \<Rightarrow> channel option list" where
  "partsIssued c s s' = concat (map (partOn c) (issued s s'))"
text \<open>
  The state in which the factory, started with valid credentials and the channel list
  \<open>joined\<close>, has created its sessions, and the configured list has then become
  \<open>desired\<close>.
\<close>

abbreviation sessionsThen :: "channel list \<Rightarrow> channel list \<Rightarrow> state" where
  "sessionsThen joined desired \<equiv>
     mutateChannels desired (snd (create (initState ''bob'' ''pw'' joined)))"

text \<open>A client object without its listeners: what it was constructed and initialised with.\<close>

definition configOf :: "tmiClient \<Rightarrow> tmiClient" where
  "configOf cl = cl\<lparr>listeners := []\<rparr>"

text \<open>
  What no event dispatch and no public method changes: the arrays, the allocation
  counters, the configuration references, every client's configuration; and the table
  of clients stays as it is or becomes empty.
\<close>

definition steady :: "state \<Rightarrow> state \<Rightarrow> bool" where
  "steady s s' \<longleftrightarrow>
     arrays s' = arrays s \<and> nextArr s' = nextArr s \<and> nextObj s' = nextObj s \<and>
     channelsRef s' = channelsRef s \<and> username s' = username s \<and>
     transportIsMod s' = transportIsMod s \<and>
     (\<forall>c. configOf (objs s' c) = configOf (objs s c)) \<and>
     (clients s' = clients s \<or> clients s' = (\<lambda>_. None))"
text \<open>The number of events of one name emitted on \<^verbatim>\<open>ee\<close> so far.\<close>

fun isOutward :: "string \<Rightarrow> effect \<Rightarrow> bool" where
  "isOutward ev (Emitted ev' args) = (ev' = ev)"
| "isOutward ev _ = False"

definition outward :: "string \<Rightarrow> state \<Rightarrow> nat" where
  "outward ev s = length (filter (isOutward ev) (trace s))"

text \<open>
  The wiring of the read client \<open>c\<close>. \<open>armed\<close>: the one-shot 'disconnected' listener
  is installed (as after \<^verbatim>\<open>create\<close>, or after a 'connected' event re-armed it).
  \<open>disarmed\<close>: it has fired, and the one-shot 'connected' listener that re-arms it is
  installed. Each comes with or without the bad-login check of \<^verbatim>\<open>onBadLogin\<close>.
\<close>

definition armed :: "state \<Rightarrow> cid \<Rightarrow> bool" where
  "armed s c \<longleftrightarrow>
     clients s Read = Some c \<and>
     listenersFor ''connected'' c s = [Forward ''connected'', ReadConnected] \<and>
     listenersFor ''disconnected'' c s \<in>
       set [[ReadDisconnected, EmitDisconnectedOnce],
            [ReadDisconnected, EmitDisconnectedOnce, BadLoginCheck],
            [ReadDisconnected, BadLoginCheck, EmitDisconnectedOnce]]"

definition disarmed :: "state \<Rightarrow> cid \<Rightarrow> bool" where
  "disarmed s c \<longleftrightarrow>
     clients s Read = Some c \<and>
     listenersFor ''connected'' c s = [Forward ''connected'', ReadConnected, RearmDisconnected] \<and>
     listenersFor ''disconnected'' c s \<in>
       set [[ReadDisconnected], [ReadDisconnected, BadLoginCheck]]"

text \<open>Successive notifications of one event on client \<open>c\<close>, each dispatched in its own turn.\<close>

fun notifyAll :: "cid \<Rightarrow> string \<Rightarrow> string list list \<Rightarrow> state \<Rightarrow> state" where
  "notifyAll c ev [] s = s"
| "notifyAll c ev (args # rest) s = notifyAll c ev rest (snd (emitOn c ev args s))"
text \<open>The factory started with valid credentials and the channel list \<open>[a]\<close>.\<close>

abbreviation started :: state where
  "started \<equiv> snd (startup (initState ''bob'' ''pw'' [''a'']))"

text \<open>
  The entry points of the provider: its private lifecycle functions, the handlers it
  gives to the watchers, the dispatch of an event on a client, the public methods, the
  delivery of observed changes; and the changes the owner of \<^verbatim>\<open>settings\<close> makes.
\<close>

datatype operation =
    OpCreate
  | OpDestroy
  | OpSyncChannels
  | OpChannelsChange addr addr
  | OpValidCredentials bool bool
  | OpInvalidCredentials bool bool
  | OpEmit cid string "string list"
  | OpSay channel string
  | OpWhisper string string
  | OpIsMod channel string
  | OpDeliverChanges
  | OpOnBadLogin
  | OpStartup
  | OpMutateChannels "channel list"
  | OpReplaceChannels "channel list"
  | OpSetIdentity string string

fun perform :: "operation \<Rightarrow> state \<Rightarrow> state" where
  "perform OpCreate s = snd (create s)"
| "perform OpDestroy s = destroy s"
| "perform OpSyncChannels s = snd (syncChannels s)"
| "perform (OpChannelsChange newV oldV) s = snd (onChannelsChange newV oldV s)"
| "perform (OpValidCredentials newv oldv) s = snd (onValidCredentials newv oldv s)"
| "perform (OpInvalidCredentials newv oldv) s = snd (onInvalidCredentials newv oldv s)"
| "perform (OpEmit c ev args) s = snd (emitOn c ev args s)"
| "perform (OpSay ch m) s = snd (say ch m s)"
| "perform (OpWhisper u m) s = snd (whisper u m s)"
| "perform (OpIsMod ch u) s = snd (isMod ch u s)"
| "perform OpDeliverChanges s = snd (deliverChanges s)"
| "perform OpOnBadLogin s = snd (onBadLogin s)"
| "perform OpStartup s = snd (startup s)"
| "perform (OpMutateChannels xs) s = mutateChannels xs s"
| "perform (OpReplaceChannels xs) s = replaceChannels xs s"
| "perform (OpSetIdentity u p) s = s\<lparr>username := u, password := p\<rparr>"

fun isReconcile :: "operation \<Rightarrow> bool" where
  "isReconcile OpSyncChannels = True"
| "isReconcile (OpChannelsChange newV oldV) = True"
| "isReconcile _ = False"

definition allLive :: "state \<Rightarrow> bool" where
  "allLive s = list_all (\<lambda>key. clients s key \<noteq> None) roles"

definition noneLive :: "state \<Rightarrow> bool" where
  "noneLive s = list_all (\<lambda>key. clients s key = None) roles"

definition allOrNone :: "state \<Rightarrow> bool" where
  "allOrNone s = (allLive s \<or> noneLive s)"
text \<open>
  \<open>tracked x c s\<close>: \<open>x\<close> is an allocated array other than the one
  \<^verbatim>\<open>settings.channels\<close> refers to, which itself is allocated, and \<open>c\<close> is an
  allocated client object.
\<close>

definition tracked :: "addr \<Rightarrow> cid \<Rightarrow> state \<Rightarrow> bool" where
  "tracked x c s \<longleftrightarrow>
     channelsRef s < nextArr s \<and> x < nextArr s \<and> x \<noteq> channelsRef s \<and> c < nextObj s"

text \<open>
  One turn of the event loop: an operation runs to completion, and the change records
  it made on \<^verbatim>\<open>clients\<close> are delivered to the observer of \<^verbatim>\<open>onBadLogin\<close> before
  anything else happens.
\<close>

definition turn :: "operation \<Rightarrow> state \<Rightarrow> state" where
  "turn op s = snd (deliverChanges (perform op s))"

fun isForward :: "handler \<Rightarrow> bool" where
  "isForward (Forward ev) = True"
| "isForward _ = False"

text \<open>
  What holds of the listeners between turns and during a dispatch. \<open>checked\<close>: a client
  with a listener other than a forwarder is the read client and has the bad-login
  check. \<open>listening\<close>: the read client has the 'connected' handler of \<^verbatim>\<open>create\<close>.
\<close>

definition checked :: "state \<Rightarrow> bool" where
  "checked s \<longleftrightarrow>
     (\<forall>c. list_all isForward (listeners (objs s c)) \<or>
          clients s Read = Some c \<and> BadLoginCheck \<in> set (listeners (objs s c)))"

definition listening :: "state \<Rightarrow> bool" where
  "listening s \<longleftrightarrow> (\<forall>c. clients s Read = Some c \<longrightarrow> ReadConnected \<in> set (listeners (objs s c)))"

definition midDispatch :: "string list \<Rightarrow> handler list \<Rightarrow> state \<Rightarrow> bool" where
  "midDispatch args hs s \<longleftrightarrow>
     observing s \<and> checked s \<and> listening s \<and>
     (clients s Read \<noteq> None \<longrightarrow>
        pending s = [] \<and>
        (badLogin s = None \<or> isBadLogin args \<and> BadLoginCheck \<in> set hs) \<and>
        (ReadDisconnected \<in> set hs \<and> isBadLogin args \<longrightarrow> BadLoginCheck \<in> set hs))"

definition quiet :: "state \<Rightarrow> bool" where
  "quiet s \<longleftrightarrow>
     observing s \<and> checked s \<and> listening s \<and>
     (clients s Read \<noteq> None \<longrightarrow> pending s = [] \<and> badLogin s = None)"

definition settled :: "state \<Rightarrow> bool" where
  "settled s \<longleftrightarrow> quiet s \<and> pending s = []"

section \<open>Basic facts about the primitives\<close>

lemma logEffect_fields [simp]:
  "arrays (logEffect e s) = arrays s" "nextArr (logEffect e s) = nextArr s"
  "objs (logEffect e s) = objs s" "nextObj (logEffect e s) = nextObj s"
  "clients (logEffect e s) = clients s" "ready (logEffect e s) = ready s"
  "badLogin (logEffect e s) = badLogin s" "username (logEffect e s) = username s"
  "password (logEffect e s) = password s" "channelsRef (logEffect e s) = channelsRef s"
  "trace (logEffect e s) = trace s @ [e]" "observing (logEffect e s) = observing s"
  "pending (logEffect e s) = pending s" "cbCalls (logEffect e s) = cbCalls s"
  "transportIsMod (logEffect e s) = transportIsMod s"
  by (simp_all add: logEffect_def)

lemma updClient_fields [simp]:
  "arrays (updClient c f s) = arrays s" "nextArr (updClient c f s) = nextArr s"
  "objs (updClient c f s) = (objs s)(c := f (objs s c))" "nextObj (updClient c f s) = nextObj s"
  "clients (updClient c f s) = clients s" "ready (updClient c f s) = ready s"
  "badLogin (updClient c f s) = badLogin s" "username (updClient c f s) = username s"
  "password (updClient c f s) = password s" "channelsRef (updClient c f s) = channelsRef s"
  "trace (updClient c f s) = trace s" "observing (updClient c f s) = observing s"
  "pending (updClient c f s) = pending s" "cbCalls (updClient c f s) = cbCalls s"
  "transportIsMod (updClient c f s) = transportIsMod s"
  by (simp_all add: updClient_def)

lemma setClient_fields [simp]:
  "arrays (setClient k v s) = arrays s" "nextArr (setClient k v s) = nextArr s"
  "objs (setClient k v s) = objs s" "nextObj (setClient k v s) = nextObj s"
  "clients (setClient k v s) = (clients s)(k := v)" "ready (setClient k v s) = ready s"
  "badLogin (setClient k v s) = badLogin s" "username (setClient k v s) = username s"
  "password (setClient k v s) = password s" "channelsRef (setClient k v s) = channelsRef s"
  "trace (setClient k v s) = trace s" "observing (setClient k v s) = observing s"
  "pending (setClient k v s) = (if observing s then pending s @ [k] else pending s)"
  "cbCalls (setClient k v s) = cbCalls s"
  "transportIsMod (setClient k v s) = transportIsMod s"
  by (simp_all add: setClient_def)

lemma removeAllListeners_fields [simp]:
  "arrays (removeAllListeners c s) = arrays s" "nextArr (removeAllListeners c s) = nextArr s"
  "objs (removeAllListeners c s) = (objs s)(c := (objs s c)\<lparr>listeners := []\<rparr>)"
  "nextObj (removeAllListeners c s) = nextObj s"
  "clients (removeAllListeners c s) = clients s" "ready (removeAllListeners c s) = ready s"
  "badLogin (removeAllListeners c s) = badLogin s" "username (removeAllListeners c s) = username s"
  "password (removeAllListeners c s) = password s" "channelsRef (removeAllListeners c s) = channelsRef s"
  "trace (removeAllListeners c s) = trace s @ [Transport c RemoveAllListeners]"
  "observing (removeAllListeners c s) = observing s"
  "pending (removeAllListeners c s) = pending s" "cbCalls (removeAllListeners c s) = cbCalls s"
  "transportIsMod (removeAllListeners c s) = transportIsMod s"
  by (simp_all add: removeAllListeners_def)

lemma addListener_fields [simp]:
  "arrays (addListener c h s) = arrays s" "nextArr (addListener c h s) = nextArr s"
  "objs (addListener c h s) = (objs s)(c := (objs s c)\<lparr>listeners := listeners (objs s c) @ [h]\<rparr>)"
  "nextObj (addListener c h s) = nextObj s"
  "clients (addListener c h s) = clients s" "ready (addListener c h s) = ready s"
  "badLogin (addListener c h s) = badLogin s" "username (addListener c h s) = username s"
  "password (addListener c h s) = password s" "channelsRef (addListener c h s) = channelsRef s"
  "trace (addListener c h s) = trace s"
  "observing (addListener c h s) = observing s"
  "pending (addListener c h s) = pending s" "cbCalls (addListener c h s) = cbCalls s"
  "transportIsMod (addListener c h s) = transportIsMod s"
  by (simp_all add: addListener_def)

lemma destroyOne_fields [simp]:
  "arrays (destroyOne k s) = arrays s" "nextArr (destroyOne k s) = nextArr s"
  "nextObj (destroyOne k s) = nextObj s"
  "clients (destroyOne k s) = (clients s)(k := None)" "ready (destroyOne k s) = ready s"
  "badLogin (destroyOne k s) = badLogin s" "username (destroyOne k s) = username s"
  "password (destroyOne k s) = password s" "channelsRef (destroyOne k s) = channelsRef s"
  "trace (destroyOne k s) = trace s @ destroyedCalls (clients s k)"
  "observing (destroyOne k s) = observing s"
  "cbCalls (destroyOne k s) = cbCalls s"
  "transportIsMod (destroyOne k s) = transportIsMod s"
  by (auto simp: destroyOne_def destroyedCalls_def split: option.splits)

lemma destroyOne_None [simp]: "clients s k = None \<Longrightarrow> destroyOne k s = s"
  by (simp add: destroyOne_def)

lemma destroy_unfold: "destroy s = destroyOne Whisper (destroyOne Write (destroyOne Read s))"
  by (simp add: destroy_def roles_def)

lemma destroy_fields [simp]:
  "arrays (destroy s) = arrays s" "nextArr (destroy s) = nextArr s"
  "nextObj (destroy s) = nextObj s"
  "ready (destroy s) = ready s"
  "badLogin (destroy s) = badLogin s" "username (destroy s) = username s"
  "password (destroy s) = password s" "channelsRef (destroy s) = channelsRef s"
  "observing (destroy s) = observing s"
  "cbCalls (destroy s) = cbCalls s"
  "transportIsMod (destroy s) = transportIsMod s"
  by (simp_all add: destroy_unfold)

lemma destroy_clients [simp]: "clients (destroy s) = (\<lambda>_. None)"
proof
  fix k show "clients (destroy s) k = None"
    by (cases k) (simp_all add: destroy_unfold)
qed

lemma destroy_trace:
  "trace (destroy s) = trace s @ concat (map (\<lambda>key. destroyedCalls (clients s key)) roles)"
  by (simp add: destroy_unfold roles_def)

lemma destroy_dead: "(\<And>k. clients s k = None) \<Longrightarrow> destroy s = s"
  by (simp add: destroy_unfold)

lemma destroy_idem: "destroy (destroy s) = destroy s"
  by (rule destroy_dead) simp

lemma destroyOne_listeners:
  "listeners (objs (destroyOne k s) c) = (if clients s k = Some c then [] else listeners (objs s c))"
  by (auto simp: destroyOne_def split: option.splits)

lemma destroy_listeners:
  "listeners (objs (destroy s) c) = (if \<exists>k. clients s k = Some c then [] else listeners (objs s c))"
proof -
  have "(\<exists>k. clients s k = Some c) \<longleftrightarrow> clients s Read = Some c \<or> clients s Write = Some c \<or> clients s Whisper = Some c"
    by (metis role.exhaust)
  then show ?thesis
    by (simp add: destroy_unfold destroyOne_listeners)
qed

lemma createOne_fields [simp]:
  "nextObj (createOne k s) = Suc (nextObj s)"
  "nextArr (createOne k s) = (if k = Whisper then Suc (Suc (Suc (nextArr s))) else Suc (Suc (nextArr s)))"
  "clients (createOne k s) = (clients s)(k := Some (nextObj s))" "ready (createOne k s) = ready s"
  "badLogin (createOne k s) = badLogin s" "username (createOne k s) = username s"
  "password (createOne k s) = password s" "channelsRef (createOne k s) = channelsRef s"
  "trace (createOne k s) = trace s @ [Transport (nextObj s) Connect]"
  "observing (createOne k s) = observing s"
  "pending (createOne k s) = (if observing s then pending s @ [k] else pending s)"
  "cbCalls (createOne k s) = cbCalls s"
  "transportIsMod (createOne k s) = transportIsMod s"
  "objs (createOne k s) = (objs s)(nextObj s := newClient k s)"
  "arrays (createOne k s) =
     (if k = Whisper
      then (arrays s)(nextArr s := arrays s (channelsRef s), Suc (nextArr s) := [], Suc (Suc (nextArr s)) := [])
      else (arrays s)(nextArr s := arrays s (channelsRef s), Suc (nextArr s) := arrays s (channelsRef s)))"
  by (simp_all add: createOne_def allocArray_def newClient_def Let_def)

lemma forwardEvents_fields [simp]:
  "arrays (forwardEvents c evs s) = arrays s" "nextArr (forwardEvents c evs s) = nextArr s"
  "nextObj (forwardEvents c evs s) = nextObj s"
  "clients (forwardEvents c evs s) = clients s" "ready (forwardEvents c evs s) = ready s"
  "badLogin (forwardEvents c evs s) = badLogin s" "username (forwardEvents c evs s) = username s"
  "password (forwardEvents c evs s) = password s" "channelsRef (forwardEvents c evs s) = channelsRef s"
  "trace (forwardEvents c evs s) = trace s"
  "observing (forwardEvents c evs s) = observing s"
  "pending (forwardEvents c evs s) = pending s" "cbCalls (forwardEvents c evs s) = cbCalls s"
  "transportIsMod (forwardEvents c evs s) = transportIsMod s"
  unfolding forwardEvents_def by (induction evs arbitrary: s; simp)+

lemma forwardEvents_objs [simp]:
  "objs (forwardEvents c evs s) =
     (objs s)(c := (objs s c)\<lparr>listeners := listeners (objs s c) @ map Forward evs\<rparr>)"
  unfolding forwardEvents_def by (induction evs arbitrary: s) simp_all

lemma create_eq: "create s = (None, created s)"
  by (simp add: create_def created_def roles_def andThen_def onClient_def done_ok_def
      onlyEmitDisconnectedOnce_def Let_def)

lemma create_ok: "fst (create s) = None"
  by (simp add: create_eq)

lemma created_fields [simp]:
  "nextObj (created s) = Suc (Suc (Suc (nextObj s)))"
  "nextArr (created s) = nextArr s + 7"
  "ready (created s) = ready s"
  "badLogin (created s) = None" "username (created s) = username s"
  "password (created s) = password s" "channelsRef (created s) = channelsRef s"
  "trace (created s) = trace (destroy s) @
     [Transport (nextObj s) Connect, Transport (Suc (nextObj s)) Connect,
      Transport (Suc (Suc (nextObj s))) Connect]"
  "observing (created s) = observing s"
  "cbCalls (created s) = cbCalls s"
  "transportIsMod (created s) = transportIsMod s"
  by (simp_all add: created_def Let_def)

lemma created_clients [simp]:
  "clients (created s) Read = Some (nextObj s)"
  "clients (created s) Write = Some (Suc (nextObj s))"
  "clients (created s) Whisper = Some (Suc (Suc (nextObj s)))"
  by (simp_all add: created_def Let_def)

lemma created_arrays:
  "arrays (created s) x =
     (if nextArr s \<le> x \<and> x < nextArr s + 5 then arrays s (channelsRef s)
      else if x = nextArr s + 5 \<or> x = nextArr s + 6 then []
      else arrays s x)"
  by (auto simp add: created_def Let_def)

lemma created_read_client:
  "objs (created s) (nextObj s) =
     \<lparr>optDebug = False, connRandom = ''chat'', connTimeout = 10000, connReconnect = True,
      identUsername = username s, identPassword = password s,
      optsChannels = nextArr s, tcCurrentChannels = nextArr s + 1,
      listeners = map Forward readEvents @ [ReadDisconnected, ReadConnected, EmitDisconnectedOnce]\<rparr>"
  by (simp add: created_def Let_def newClient_def)

lemma created_write_client:
  "objs (created s) (Suc (nextObj s)) =
     \<lparr>optDebug = False, connRandom = ''chat'', connTimeout = 10000, connReconnect = True,
      identUsername = username s, identPassword = password s,
      optsChannels = nextArr s + 2, tcCurrentChannels = nextArr s + 3,
      listeners = []\<rparr>"
  by (simp add: created_def Let_def newClient_def)

lemma created_whisper_client:
  "objs (created s) (Suc (Suc (nextObj s))) =
     \<lparr>optDebug = False, connRandom = ''group'', connTimeout = 10000, connReconnect = True,
      identUsername = username s, identPassword = password s,
      optsChannels = nextArr s + 5, tcCurrentChannels = nextArr s + 6,
      listeners = [Forward ''whisper'']\<rparr>"
  by (simp add: created_def Let_def newClient_def)

lemma created_objs_old:
  "c < nextObj s \<Longrightarrow> objs (created s) c = objs (destroy s) c"
  by (simp add: created_def Let_def)

lemma initState_fields [simp]:
  "arrays (initState u p chans) 0 = chans" "nextArr (initState u p chans) = 1"
  "nextObj (initState u p chans) = 0" "clients (initState u p chans) = (\<lambda>_. None)"
  "ready (initState u p chans) = False" "badLogin (initState u p chans) = None"
  "username (initState u p chans) = u" "password (initState u p chans) = p"
  "channelsRef (initState u p chans) = 0" "trace (initState u p chans) = []"
  "observing (initState u p chans) = False" "pending (initState u p chans) = []"
  "cbCalls (initState u p chans) = 0"
  by (simp_all add: initState_def)

section \<open>Public methods\<close>

text \<open>
  C10: with a live write (whisper) client, \<^verbatim>\<open>say\<close> and \<^verbatim>\<open>isMod\<close> (\<^verbatim>\<open>whisper\<close>) make
  exactly the same call with the same two arguments on that client, and \<^verbatim>\<open>isMod\<close>
  returns that client's answer; with \<^verbatim>\<open>null\<close> in the table they raise a
  \<^verbatim>\<open>TypeError\<close> and change nothing.
\<close>

theorem public_methods_delegate:
  "(clients s Write = Some w \<longrightarrow>
      say ch m s = (None, s\<lparr>trace := trace s @ [Transport w (Say ch m)]\<rparr>) \<and>
      isMod ch u s = (Inr (transportIsMod s w ch u), s\<lparr>trace := trace s @ [Transport w (IsMod ch u)]\<rparr>)) \<and>
   (clients s Whisper = Some p \<longrightarrow>
      whisper u m s = (None, s\<lparr>trace := trace s @ [Transport p (WhisperTo u m)]\<rparr>)) \<and>
   (clients s Write = None \<longrightarrow>
      say ch m s = (Some TypeError, s) \<and> isMod ch u s = (Inl TypeError, s)) \<and>
   (clients s Whisper = None \<longrightarrow> whisper u m s = (Some TypeError, s))"
  by (simp add: say_def whisper_def isMod_def onClient_def done_ok_def throw_def logEffect_def)

theorem public_methods_delegate_witness:
  "clients (snd (create (initState ''bob'' ''pw'' [''a'']))) Write = Some 1 \<and>
   trace (snd (say ''a'' ''hi'' (snd (create (initState ''bob'' ''pw'' [''a''])))))
     = [Transport 0 Connect, Transport 1 Connect, Transport 2 Connect, Transport 1 (Say ''a'' ''hi'')] \<and>
   fst (isMod ''a'' ''bob'' (snd (create (initState ''bob'' ''pw'' [''a''])))) = Inr False \<and>
   clients (snd (create (initState ''bob'' ''pw'' [''a'']))) Whisper = Some 2 \<and>
   trace (snd (whisper ''amy'' ''psst'' (snd (create (initState ''bob'' ''pw'' [''a''])))))
     = [Transport 0 Connect, Transport 1 Connect, Transport 2 Connect, Transport 2 (WhisperTo ''amy'' ''psst'')] \<and>
   clients (initState ''bob'' [] [''a'']) Write = None \<and>
   fst (say ''a'' ''hi'' (initState ''bob'' [] [''a''])) = Some TypeError \<and>
   fst (isMod ''a'' ''bob'' (initState ''bob'' [] [''a''])) = Inl TypeError \<and>
   clients (initState ''bob'' [] [''a'']) Whisper = None \<and>
   fst (whisper ''amy'' ''psst'' (initState ''bob'' [] [''a''])) = Some TypeError"
proof -
  let ?live = "snd (create (initState ''bob'' ''pw'' [''a'']))"
  let ?dead = "initState ''bob'' [] [''a'']"
  have w: "clients ?live Write = Some 1" and p: "clients ?live Whisper = Some 2"
    and t: "trace ?live = [Transport 0 Connect, Transport 1 Connect, Transport 2 Connect]"
    and m: "transportIsMod ?live 1 ''a'' ''bob'' = False"
    by (simp_all add: create_eq destroy_trace roles_def destroyedCalls_def initState_def)
  have d: "clients ?dead Write = None" "clients ?dead Whisper = None"
    by simp_all
  note live = public_methods_delegate
    [where s = ?live and w = 1 and p = 2 and ch = "''a''" and m = "''hi''" and u = "''bob''"]
  note priv = public_methods_delegate
    [where s = ?live and w = 1 and p = 2 and ch = "''a''" and m = "''psst''" and u = "''amy''"]
  note dead = public_methods_delegate
    [where s = ?dead and ch = "''a''" and m = "''hi''" and u = "''bob''"]
  note deadp = public_methods_delegate
    [where s = ?dead and ch = "''a''" and m = "''psst''" and u = "''amy''"]
  from live w have "say ''a'' ''hi'' ?live = (None, ?live\<lparr>trace := trace ?live @ [Transport 1 (Say ''a'' ''hi'')]\<rparr>)"
    and "isMod ''a'' ''bob'' ?live =
      (Inr (transportIsMod ?live 1 ''a'' ''bob''), ?live\<lparr>trace := trace ?live @ [Transport 1 (IsMod ''a'' ''bob'')]\<rparr>)"
    by blast+
  moreover from priv p
  have "whisper ''amy'' ''psst'' ?live = (None, ?live\<lparr>trace := trace ?live @ [Transport 2 (WhisperTo ''amy'' ''psst'')]\<rparr>)"
    by blast
  moreover from dead d have "say ''a'' ''hi'' ?dead = (Some TypeError, ?dead)"
    and "isMod ''a'' ''bob'' ?dead = (Inl TypeError, ?dead)"
    by blast+
  moreover from deadp d have "whisper ''amy'' ''psst'' ?dead = (Some TypeError, ?dead)"
    by blast
  ultimately show ?thesis
    using w p t m d by simp
qed

section \<open>destroy\<close>

text \<open>
  C8: \<^verbatim>\<open>destroy\<close> is safe in every state and idempotent. For every key that holds a
  client it removes the client's listeners, calls \<^verbatim>\<open>removeAllListeners\<close> and then
  \<^verbatim>\<open>disconnect\<close> on it (and makes no other call), and sets the entry to \<^verbatim>\<open>null\<close>; with
  no client in the table it leaves the state as it is; a second \<^verbatim>\<open>destroy\<close> right after
  the first changes nothing.
\<close>

theorem destroy_idempotent_safe:
  "(\<forall>key c. clients s key = Some c \<longrightarrow>
       listeners (objs (destroy s) c) = [] \<and> clients (destroy s) key = None) \<and>
   trace (destroy s) = trace s @ concat (map (\<lambda>key. destroyedCalls (clients s key)) roles) \<and>
   ((\<forall>key. clients s key = None) \<longrightarrow> destroy s = s) \<and>
   destroy (destroy s) = destroy s"
  using destroy_listeners [of s] destroy_trace [of s] destroy_dead [of s] destroy_idem [of s]
  by auto

theorem destroy_idempotent_safe_witness:
  "clients (snd (create (initState ''bob'' ''pw'' [''a'']))) Read = Some 0 \<and>
   listeners (objs (destroy (snd (create (initState ''bob'' ''pw'' [''a''])))) 0) = [] \<and>
   clients (destroy (snd (create (initState ''bob'' ''pw'' [''a''])))) Read = None \<and>
   trace (destroy (snd (create (initState ''bob'' ''pw'' [''a''])))) =
     [Transport 0 Connect, Transport 1 Connect, Transport 2 Connect,
      Transport 0 RemoveAllListeners, Transport 0 Disconnect,
      Transport 1 RemoveAllListeners, Transport 1 Disconnect,
      Transport 2 RemoveAllListeners, Transport 2 Disconnect] \<and>
   (\<forall>key. clients (initState ''bob'' [] [''a'']) key = None) \<and>
   destroy (initState ''bob'' [] [''a'']) = initState ''bob'' [] [''a'']"
proof -
  let ?live = "snd (create (initState ''bob'' ''pw'' [''a'']))"
  let ?dead = "initState ''bob'' [] [''a'']"
  have r: "clients ?live Read = Some 0" "clients ?live Write = Some 1" "clients ?live Whisper = Some 2"
    and t: "trace ?live = [Transport 0 Connect, Transport 1 Connect, Transport 2 Connect]"
    by (simp_all add: create_eq destroy_trace roles_def destroyedCalls_def)
  have d: "\<forall>key. clients ?dead key = None"
    by simp
  from destroy_idempotent_safe [of ?live] r
  have "listeners (objs (destroy ?live) 0) = [] \<and> clients (destroy ?live) Read = None"
    and "trace (destroy ?live) = trace ?live @ concat (map (\<lambda>key. destroyedCalls (clients ?live key)) roles)"
    by blast+
  moreover from destroy_idempotent_safe [of ?dead] d have "destroy ?dead = ?dead"
    by blast
  ultimately show ?thesis
    using r t d by (simp add: roles_def destroyedCalls_def)
qed

section \<open>Channel reconciliation\<close>

lemma joinLoop_None: "joinLoop None D s = (if D = [] then None else Some TypeError, s)"
  by (cases D) (simp_all add: done_ok_def throw_def)

lemma joinLoop_fst [simp]: "fst (joinLoop (Some c) D s) = None"
  by (induction D arbitrary: s) (simp_all add: done_ok_def Let_def)

lemma joinLoop_fields [simp]:
  "nextArr (snd (joinLoop cl D s)) = nextArr s"
  "objs (snd (joinLoop cl D s)) = objs s" "nextObj (snd (joinLoop cl D s)) = nextObj s"
  "clients (snd (joinLoop cl D s)) = clients s" "ready (snd (joinLoop cl D s)) = ready s"
  "badLogin (snd (joinLoop cl D s)) = badLogin s" "username (snd (joinLoop cl D s)) = username s"
  "password (snd (joinLoop cl D s)) = password s" "channelsRef (snd (joinLoop cl D s)) = channelsRef s"
  "observing (snd (joinLoop cl D s)) = observing s"
  "pending (snd (joinLoop cl D s)) = pending s" "cbCalls (snd (joinLoop cl D s)) = cbCalls s"
  "transportIsMod (snd (joinLoop cl D s)) = transportIsMod s"
  by (induction D arbitrary: s; cases cl; simp add: done_ok_def throw_def Let_def)+

lemma joinLoop_arrays:
  "arrays (snd (joinLoop (Some c) D s)) =
     (arrays s)(tcCurrentChannels (objs s c) :=
        arrays s (tcCurrentChannels (objs s c)) @ newJoins D (arrays s (tcCurrentChannels (objs s c))))"
  by (induction D arbitrary: s) (simp_all add: done_ok_def Let_def)

lemma joinLoop_trace:
  "trace (snd (joinLoop (Some c) D s)) =
     trace s @ map (\<lambda>ch. Transport c (Join ch)) (newJoins D (arrays s (tcCurrentChannels (objs s c))))"
  by (induction D arbitrary: s) (simp_all add: done_ok_def Let_def)

lemma newJoins_set: "set (newJoins D J) = set D - set J"
  by (induction D arbitrary: J) auto

lemma newJoins_distinct: "distinct (newJoins D J)"
  by (induction D arbitrary: J) (auto simp: newJoins_set)

lemma leaveLoop_fields [simp]:
  "nextArr (leaveLoop c n s) = nextArr s"
  "objs (leaveLoop c n s) = objs s" "nextObj (leaveLoop c n s) = nextObj s"
  "clients (leaveLoop c n s) = clients s" "ready (leaveLoop c n s) = ready s"
  "badLogin (leaveLoop c n s) = badLogin s" "username (leaveLoop c n s) = username s"
  "password (leaveLoop c n s) = password s" "channelsRef (leaveLoop c n s) = channelsRef s"
  "observing (leaveLoop c n s) = observing s"
  "pending (leaveLoop c n s) = pending s" "cbCalls (leaveLoop c n s) = cbCalls s"
  "transportIsMod (leaveLoop c n s) = transportIsMod s"
  by (induction n arbitrary: s; simp add: Let_def)+

lemma leaveLoop_aliased:
  "tcCurrentChannels (objs s c) = channelsRef s \<Longrightarrow> n \<le> length (arrays s (channelsRef s))
   \<Longrightarrow> leaveLoop c n s = s"
  by (induction n arbitrary: s) (simp_all add: Let_def)

lemma leaveLoop_arrays:
  "tcCurrentChannels (objs s c) \<noteq> channelsRef s
   \<Longrightarrow> n \<le> length (arrays s (tcCurrentChannels (objs s c)))
   \<Longrightarrow> arrays (leaveLoop c n s) =
       (arrays s)(tcCurrentChannels (objs s c) :=
          filter (\<lambda>ch. ch \<in> set (arrays s (channelsRef s))) (take n (arrays s (tcCurrentChannels (objs s c))))
          @ drop n (arrays s (tcCurrentChannels (objs s c))))"
proof (induction n arbitrary: s)
  case 0
  then show ?case by simp
next
  case (Suc i)
  let ?tc = "tcCurrentChannels (objs s c)"
  let ?cur = "arrays s ?tc"
  from Suc.prems have i: "i < length ?cur" by simp
  show ?case
  proof (cases "?cur ! i \<in> set (arrays s (channelsRef s))")
    case True
    with Suc i show ?thesis
      by (simp add: Let_def take_Suc_conv_app_nth Cons_nth_drop_Suc)
  next
    case False
    let ?s' = "(logEffect (Transport c (Part (Some (?cur ! i)))) s)
                 \<lparr>arrays := (arrays s)(?tc := take i ?cur @ drop (Suc i) ?cur)\<rparr>"
    have "arrays (leaveLoop c i ?s') =
       (arrays ?s')(tcCurrentChannels (objs ?s' c) :=
          filter (\<lambda>ch. ch \<in> set (arrays ?s' (channelsRef ?s'))) (take i (arrays ?s' (tcCurrentChannels (objs ?s' c))))
          @ drop i (arrays ?s' (tcCurrentChannels (objs ?s' c))))"
      using Suc.prems i by (intro Suc.IH) simp_all
    with False Suc.prems i show ?thesis
      by (simp add: Let_def take_Suc_conv_app_nth min_def)
  qed
qed

lemma leaveLoop_trace:
  "tcCurrentChannels (objs s c) \<noteq> channelsRef s
   \<Longrightarrow> n \<le> length (arrays s (tcCurrentChannels (objs s c)))
   \<Longrightarrow> trace (leaveLoop c n s) =
       trace s @ map (\<lambda>ch. Transport c (Part (Some ch)))
          (rev (filter (\<lambda>ch. ch \<notin> set (arrays s (channelsRef s))) (take n (arrays s (tcCurrentChannels (objs s c))))))"
proof (induction n arbitrary: s)
  case 0
  then show ?case by simp
next
  case (Suc i)
  let ?tc = "tcCurrentChannels (objs s c)"
  let ?cur = "arrays s ?tc"
  from Suc.prems have i: "i < length ?cur" by simp
  show ?case
  proof (cases "?cur ! i \<in> set (arrays s (channelsRef s))")
    case True
    with Suc i show ?thesis
      by (simp add: Let_def take_Suc_conv_app_nth)
  next
    case False
    let ?s' = "(logEffect (Transport c (Part (Some (?cur ! i)))) s)
                 \<lparr>arrays := (arrays s)(?tc := take i ?cur @ drop (Suc i) ?cur)\<rparr>"
    have "trace (leaveLoop c i ?s') =
       trace ?s' @ map (\<lambda>ch. Transport c (Part (Some ch)))
          (rev (filter (\<lambda>ch. ch \<notin> set (arrays ?s' (channelsRef ?s'))) (take i (arrays ?s' (tcCurrentChannels (objs ?s' c))))))"
      using Suc.prems i by (intro Suc.IH) simp_all
    with False Suc.prems i show ?thesis
      by (simp add: Let_def take_Suc_conv_app_nth min_def)
  qed
qed

lemma newJoins_nil: "set D \<subseteq> set J \<Longrightarrow> newJoins D J = []"
  by (induction D arbitrary: J) auto

lemma syncClient_None: "syncClient None s = (Some TypeError, s)"
  by (simp add: syncClient_def andThen_def joinChannels_def joinLoop_None leaveChannels_def throw_def)

lemma syncChannels_dead: "clients s Read = None \<Longrightarrow> syncChannels s = (Some TypeError, s)"
  by (simp add: syncChannels_def andThen_def syncClient_None)

lemma syncClient_fst: "fst (syncClient (Some c) s) = None"
  by (simp add: syncClient_def andThen_def joinChannels_def leaveChannels_def done_ok_def
      split: prod.splits option.splits)
     (metis fst_conv joinLoop_fst option.distinct(1))

lemma syncClient_snd:
  "snd (syncClient (Some c) s) =
     (let s1 = snd (joinLoop (Some c) (arrays s (channelsRef s)) s)
      in leaveLoop c (length (arrays s1 (tcCurrentChannels (objs s1 c)))) s1)"
proof -
  obtain e s1 where j: "joinLoop (Some c) (arrays s (channelsRef s)) s = (e, s1)"
    by (cases "joinLoop (Some c) (arrays s (channelsRef s)) s")
  with joinLoop_fst [of c "arrays s (channelsRef s)" s] have "e = None" by simp
  with j show ?thesis
    by (simp add: syncClient_def andThen_def joinChannels_def leaveChannels_def done_ok_def)
qed

lemma syncClient_effect:
  fixes s c
  defines "tc \<equiv> tcCurrentChannels (objs s c)"
  defines "J \<equiv> arrays s tc"
  defines "D \<equiv> arrays s (channelsRef s)"
  defines "s' \<equiv> snd (syncClient (Some c) s)"
  shows "arrays s' = (arrays s)(tc := joinedAfter D J)"
    and "trace s' = trace s @ map (\<lambda>ch. Transport c (Join ch)) (newJoins D J)
                            @ map (\<lambda>ch. Transport c (Part (Some ch))) (partsFor D J)"
proof -
  let ?s1 = "snd (joinLoop (Some c) D s)"
  have s': "s' = leaveLoop c (length (arrays ?s1 tc)) ?s1"
    by (simp add: s'_def syncClient_snd D_def tc_def Let_def)
  have a1: "arrays ?s1 = (arrays s)(tc := J @ newJoins D J)"
    and t1: "trace ?s1 = trace s @ map (\<lambda>ch. Transport c (Join ch)) (newJoins D J)"
    by (simp_all add: joinLoop_arrays joinLoop_trace tc_def J_def)
  have sub: "set (newJoins D J) \<subseteq> set D"
    by (simp add: newJoins_set)
  then have keep: "filter (\<lambda>ch. ch \<in> set D) (newJoins D J) = newJoins D J"
    and drop: "filter (\<lambda>ch. ch \<notin> set D) (newJoins D J) = []"
    by (auto simp: filter_id_conv filter_empty_conv)
  have "arrays s' = (arrays s)(tc := joinedAfter D J) \<and>
        trace s' = trace s @ map (\<lambda>ch. Transport c (Join ch)) (newJoins D J)
                            @ map (\<lambda>ch. Transport c (Part (Some ch))) (partsFor D J)"
  proof (cases "tc = channelsRef s")
    case True
    then have JD: "J = D" by (simp add: J_def D_def)
    then have nil: "newJoins D J = []" by (simp add: newJoins_nil)
    have same: "arrays ?s1 = arrays s" using a1 nil by (simp add: J_def)
    have "leaveLoop c (length (arrays ?s1 tc)) ?s1 = ?s1"
      using True same by (intro leaveLoop_aliased) (simp_all add: tc_def)
    with s' have eq: "s' = ?s1" by simp
    have triv: "(arrays s)(tc := J) = arrays s" by (simp add: J_def)
    have "joinedAfter D J = J" using JD nil by (simp add: joinedAfter_def)
    with eq same triv have "arrays s' = (arrays s)(tc := joinedAfter D J)"
      by simp
    moreover have "trace s' = trace s @ map (\<lambda>ch. Transport c (Join ch)) (newJoins D J)
                            @ map (\<lambda>ch. Transport c (Part (Some ch))) (partsFor D J)"
      using eq t1 JD nil by (simp add: partsFor_def)
    ultimately show ?thesis by simp
  next
    case False
    then have ne: "tcCurrentChannels (objs ?s1 c) \<noteq> channelsRef ?s1"
      by (simp add: tc_def)
    have D1: "arrays ?s1 (channelsRef ?s1) = D"
      using a1 False by (simp add: D_def)
    have cur: "arrays ?s1 (tcCurrentChannels (objs ?s1 c)) = J @ newJoins D J"
      using a1 by (simp add: tc_def)
    have tc1: "tcCurrentChannels (objs ?s1 c) = tc" by (simp add: tc_def)
    from leaveLoop_arrays [OF ne, of "length (arrays ?s1 tc)"] s' a1 D1 cur tc1 keep
    have "arrays s' = (arrays s)(tc := joinedAfter D J)"
      by (simp add: joinedAfter_def)
    moreover from leaveLoop_trace [OF ne, of "length (arrays ?s1 tc)"] s' t1 D1 cur tc1 drop
    have "trace s' = trace s @ map (\<lambda>ch. Transport c (Join ch)) (newJoins D J)
                            @ map (\<lambda>ch. Transport c (Part (Some ch))) (partsFor D J)"
      by (simp add: partsFor_def)
    ultimately show ?thesis by simp
  qed
  then show "arrays s' = (arrays s)(tc := joinedAfter D J)"
    and "trace s' = trace s @ map (\<lambda>ch. Transport c (Join ch)) (newJoins D J)
                            @ map (\<lambda>ch. Transport c (Part (Some ch))) (partsFor D J)"
    by simp_all
qed

lemma syncClient_fields [simp]:
  "nextArr (snd (syncClient cl s)) = nextArr s"
  "objs (snd (syncClient cl s)) = objs s" "nextObj (snd (syncClient cl s)) = nextObj s"
  "clients (snd (syncClient cl s)) = clients s" "ready (snd (syncClient cl s)) = ready s"
  "badLogin (snd (syncClient cl s)) = badLogin s" "username (snd (syncClient cl s)) = username s"
  "password (snd (syncClient cl s)) = password s" "channelsRef (snd (syncClient cl s)) = channelsRef s"
  "observing (snd (syncClient cl s)) = observing s"
  "pending (snd (syncClient cl s)) = pending s" "cbCalls (snd (syncClient cl s)) = cbCalls s"
  "transportIsMod (snd (syncClient cl s)) = transportIsMod s"
  by (cases cl; simp add: syncClient_None syncClient_snd Let_def)+

lemma joinedAfter_set: "set (joinedAfter D J) = set D"
  by (auto simp: joinedAfter_def newJoins_set)

lemma partsFor_set: "set (partsFor D J) = set J - set D"
  by (auto simp: partsFor_def)

lemma partsFor_distinct: "distinct J \<Longrightarrow> distinct (partsFor D J)"
  by (simp add: partsFor_def)

lemma joinOn_joins [simp]: "concat (map (joinOn c \<circ> (\<lambda>ch. Transport c (Join ch))) js) = js"
  by (induction js) simp_all

lemma joinOn_parts [simp]: "concat (map (joinOn c \<circ> (\<lambda>ch. Transport c (Part (Some ch)))) ps) = []"
  by (induction ps) simp_all

lemma partOn_joins [simp]: "concat (map (partOn c \<circ> (\<lambda>ch. Transport c (Join ch))) js) = []"
  by (induction js) simp_all

lemma partOn_parts [simp]:
  "concat (map (partOn c \<circ> (\<lambda>ch. Transport c (Part (Some ch)))) ps) = map Some ps"
  by (induction ps) simp_all

lemma syncClient_issued:
  "issued s (snd (syncClient (Some c) s)) =
     map (\<lambda>ch. Transport c (Join ch))
         (newJoins (arrays s (channelsRef s)) (arrays s (tcCurrentChannels (objs s c))))
     @ map (\<lambda>ch. Transport c (Part (Some ch)))
         (partsFor (arrays s (channelsRef s)) (arrays s (tcCurrentChannels (objs s c))))"
  by (simp add: issued_def syncClient_effect)

lemma syncClient_joinsIssued:
  "joinsIssued c s (snd (syncClient (Some c) s)) =
     newJoins (arrays s (channelsRef s)) (arrays s (tcCurrentChannels (objs s c)))"
  by (simp add: joinsIssued_def syncClient_issued)

lemma syncClient_partsIssued:
  "partsIssued c s (snd (syncClient (Some c) s)) =
     map Some (partsFor (arrays s (channelsRef s)) (arrays s (tcCurrentChannels (objs s c))))"
  by (simp add: partsIssued_def syncClient_issued)

lemma syncClient_desired:
  "arrays (snd (syncClient (Some c) s)) (channelsRef s) = arrays s (channelsRef s)"
proof (cases "tcCurrentChannels (objs s c) = channelsRef s")
  case True
  then have "joinedAfter (arrays s (channelsRef s)) (arrays s (tcCurrentChannels (objs s c)))
      = arrays s (channelsRef s)"
    by (simp add: joinedAfter_def newJoins_nil)
  with True show ?thesis by (simp add: syncClient_effect)
next
  case False
  then show ?thesis by (simp add: syncClient_effect)
qed

text \<open>
  C1, as amended: for every desired list \<open>D\<close> and every client with tracked list
  \<open>J\<close>, one reconciliation of that client (the callback of \<^verbatim>\<open>syncChannels\<close>)
  returns normally, leaves \<open>D\<close> as it is and the tracked list equal to \<open>D\<close> as a
  set. It issues only joins followed by parts on that client: the joins are the
  \<open>|D \<setminus> J|\<close> channels of \<open>D\<close> not in \<open>J\<close>, each once; there is one
  part for every entry of \<open>J\<close> that is not in \<open>D\<close>, from the last entry to the
  first, and when \<open>J\<close> has no repeated entry these are \<open>|J \<setminus> D|\<close> parts,
  each channel once.
\<close>

theorem syncClient_reconciles:
  fixes s c
  defines "tc \<equiv> tcCurrentChannels (objs s c)"
  defines "J \<equiv> arrays s tc"
  defines "D \<equiv> arrays s (channelsRef s)"
  defines "s' \<equiv> snd (syncClient (Some c) s)"
  shows "fst (syncClient (Some c) s) = None \<and>
         set (arrays s' tc) = set D \<and>
         arrays s' (channelsRef s') = D \<and>
         issued s s' = map (\<lambda>ch. Transport c (Join ch)) (joinsIssued c s s')
                       @ map (\<lambda>ch. Transport c (Part ch)) (partsIssued c s s') \<and>
         distinct (joinsIssued c s s') \<and>
         set (joinsIssued c s s') = set D - set J \<and>
         length (joinsIssued c s s') = card (set D - set J) \<and>
         partsIssued c s s' = map Some (rev (filter (\<lambda>ch. ch \<notin> set D) J)) \<and>
         set (partsIssued c s s') = Some ` (set J - set D) \<and>
         (distinct J \<longrightarrow>
            distinct (partsIssued c s s') \<and> length (partsIssued c s s') = card (set J - set D))"
proof -
  have j: "joinsIssued c s s' = newJoins D J"
    and p: "partsIssued c s s' = map Some (partsFor D J)"
    and i: "issued s s' = map (\<lambda>ch. Transport c (Join ch)) (newJoins D J)
                        @ map (\<lambda>ch. Transport c (Part (Some ch))) (partsFor D J)"
    unfolding s'_def D_def J_def tc_def
    by (rule syncClient_joinsIssued, rule syncClient_partsIssued, rule syncClient_issued)
  have a: "arrays s' tc = joinedAfter D J"
    unfolding s'_def D_def J_def tc_def by (simp add: syncClient_effect)
  have d: "arrays s' (channelsRef s') = D"
    unfolding s'_def D_def by (simp add: syncClient_desired)
  have len: "length (newJoins D J) = card (set D - set J)"
    using distinct_card [OF newJoins_distinct, of D J] by (simp add: newJoins_set)
  have plen: "distinct J \<Longrightarrow> length (partsFor D J) = card (set J - set D)"
    using distinct_card [OF partsFor_distinct, of J D] by (simp add: partsFor_set)
  have each: "partsIssued c s s' = map Some (rev (filter (\<lambda>ch. ch \<notin> set D) J))"
    by (simp add: p partsFor_def)
  have "fst (syncClient (Some c) s) = None \<and>
         set (arrays s' tc) = set D \<and>
         arrays s' (channelsRef s') = D \<and>
         issued s s' = map (\<lambda>ch. Transport c (Join ch)) (joinsIssued c s s')
                       @ map (\<lambda>ch. Transport c (Part ch)) (partsIssued c s s') \<and>
         distinct (joinsIssued c s s') \<and>
         set (joinsIssued c s s') = set D - set J \<and>
         length (joinsIssued c s s') = card (set D - set J) \<and>
         set (partsIssued c s s') = Some ` (set J - set D) \<and>
         (distinct J \<longrightarrow>
            distinct (partsIssued c s s') \<and> length (partsIssued c s s') = card (set J - set D))"
    using a d len plen
    by (simp add: j p i syncClient_fst joinedAfter_set newJoins_set newJoins_distinct
        partsFor_set partsFor_distinct distinct_map)
  with each show ?thesis
    by blast
qed

lemma mutateChannels_fields [simp]:
  "arrays (mutateChannels xs s) = (arrays s)(channelsRef s := xs)"
  "nextArr (mutateChannels xs s) = nextArr s"
  "objs (mutateChannels xs s) = objs s" "nextObj (mutateChannels xs s) = nextObj s"
  "clients (mutateChannels xs s) = clients s" "ready (mutateChannels xs s) = ready s"
  "badLogin (mutateChannels xs s) = badLogin s" "username (mutateChannels xs s) = username s"
  "password (mutateChannels xs s) = password s" "channelsRef (mutateChannels xs s) = channelsRef s"
  "trace (mutateChannels xs s) = trace s" "observing (mutateChannels xs s) = observing s"
  "pending (mutateChannels xs s) = pending s" "cbCalls (mutateChannels xs s) = cbCalls s"
  "transportIsMod (mutateChannels xs s) = transportIsMod s"
  by (simp_all add: mutateChannels_def)

lemma create_init [simp]:
  "clients (snd (create (initState u p chans))) Read = Some 0"
  "clients (snd (create (initState u p chans))) Write = Some 1"
  "clients (snd (create (initState u p chans))) Whisper = Some 2"
  "channelsRef (snd (create (initState u p chans))) = 0"
  "trace (snd (create (initState u p chans))) =
     [Transport 0 Connect, Transport 1 Connect, Transport 2 Connect]"
  "badLogin (snd (create (initState u p chans))) = None"
  "ready (snd (create (initState u p chans))) = False"
  "password (snd (create (initState u p chans))) = p"
  "username (snd (create (initState u p chans))) = u"
  "cbCalls (snd (create (initState u p chans))) = 0"
  by (simp_all add: create_eq destroy_trace roles_def destroyedCalls_def)

lemma create_init_read [simp]:
  "objs (snd (create (initState u p chans))) 0 =
     \<lparr>optDebug = False, connRandom = ''chat'', connTimeout = 10000, connReconnect = True,
      identUsername = u, identPassword = p, optsChannels = 1, tcCurrentChannels = 2,
      listeners = map Forward readEvents @ [ReadDisconnected, ReadConnected, EmitDisconnectedOnce]\<rparr>"
  using created_read_client [of "initState u p chans"] by (simp add: create_eq)

lemma create_init_arrays [simp]:
  "arrays (snd (create (initState u p chans))) 0 = chans"
  "arrays (snd (create (initState u p chans))) 2 = chans"
  by (simp_all add: create_eq created_arrays)

theorem syncClient_reconciles_witness:
  "distinct (arrays (sessionsThen [''b'', ''c''] [''a'', ''b''])
               (tcCurrentChannels (objs (sessionsThen [''b'', ''c''] [''a'', ''b'']) 0))) \<and>
   distinct (partsIssued 0 (sessionsThen [''b'', ''c''] [''a'', ''b''])
               (snd (syncClient (Some 0) (sessionsThen [''b'', ''c''] [''a'', ''b''])))) \<and>
   length (partsIssued 0 (sessionsThen [''b'', ''c''] [''a'', ''b''])
               (snd (syncClient (Some 0) (sessionsThen [''b'', ''c''] [''a'', ''b''])))) = 1"
proof -
  let ?s = "sessionsThen [''b'', ''c''] [''a'', ''b'']"
  have J: "arrays ?s (tcCurrentChannels (objs ?s 0)) = [''b'', ''c'']"
    and D: "arrays ?s (channelsRef ?s) = [''a'', ''b'']"
    by simp_all
  have "set [''b'', ''c''] - set [''a'', ''b''] = {''c''}"
    by auto
  then have "card (set [''b'', ''c''] - set [''a'', ''b'']) = 1"
    by simp
  with syncClient_reconciles [of 0 ?s] J D show ?thesis
    by simp
qed

text \<open>
  Without the condition on \<open>J\<close> the count of parts fails: sessions created with
  the channel list \<open>[c, c]\<close> track \<open>[c, c]\<close>; when the list becomes empty,
  \<^verbatim>\<open>part(c)\<close> is issued twice, while \<open>|J \<setminus> D| = 1\<close>.
\<close>

theorem reconcile_duplicate_parts_counterexample:
  "arrays (sessionsThen [''c'', ''c''] []) (tcCurrentChannels (objs (sessionsThen [''c'', ''c''] []) 0))
     = [''c'', ''c''] \<and>
   arrays (sessionsThen [''c'', ''c''] []) (channelsRef (sessionsThen [''c'', ''c''] [])) = [] \<and>
   partsIssued 0 (sessionsThen [''c'', ''c''] [])
     (snd (syncClient (Some 0) (sessionsThen [''c'', ''c''] []))) = [Some ''c'', Some ''c''] \<and>
   card (set [''c'', ''c''] - set ([] :: channel list)) = 1"
  by (simp add: syncClient_partsIssued partsFor_def)

text \<open>
  C4, as amended: for a client tracking \<open>[b, c]\<close> and the desired list
  \<open>[a, b]\<close> (three different channels), reconciliation issues \<^verbatim>\<open>join(a)\<close> first
  and then \<^verbatim>\<open>part(c)\<close>, and the client then tracks \<open>[b, a]\<close>, the set
  \<open>{a, b}\<close>.
\<close>

theorem reconcile_scenario_join_then_part:
  assumes "a \<noteq> b" and "b \<noteq> c'" and "a \<noteq> c'"
    and "arrays s (tcCurrentChannels (objs s cl)) = [b, c']"
    and "arrays s (channelsRef s) = [a, b]"
  shows "issued s (snd (syncClient (Some cl) s)) =
           [Transport cl (Join a), Transport cl (Part (Some c'))] \<and>
         arrays (snd (syncClient (Some cl) s)) (tcCurrentChannels (objs s cl)) = [b, a] \<and>
         set (arrays (snd (syncClient (Some cl) s)) (tcCurrentChannels (objs s cl))) = {a, b}"
  using assms by (auto simp: syncClient_issued syncClient_effect joinedAfter_def partsFor_def)

theorem reconcile_scenario_join_then_part_witness:
  "''a'' \<noteq> ''b'' \<and> ''b'' \<noteq> ''c'' \<and> ''a'' \<noteq> ''c'' \<and>
   arrays (sessionsThen [''b'', ''c''] [''a'', ''b''])
     (tcCurrentChannels (objs (sessionsThen [''b'', ''c''] [''a'', ''b'']) 0)) = [''b'', ''c''] \<and>
   arrays (sessionsThen [''b'', ''c''] [''a'', ''b''])
     (channelsRef (sessionsThen [''b'', ''c''] [''a'', ''b''])) = [''a'', ''b''] \<and>
   trace (snd (syncClient (Some 0) (sessionsThen [''b'', ''c''] [''a'', ''b'']))) =
     [Transport 0 Connect, Transport 1 Connect, Transport 2 Connect,
      Transport 0 (Join ''a''), Transport 0 (Part (Some ''c''))] \<and>
   arrays (snd (syncClient (Some 0) (sessionsThen [''b'', ''c''] [''a'', ''b'']))) 2 = [''b'', ''a'']"
proof -
  let ?s = "sessionsThen [''b'', ''c''] [''a'', ''b'']"
  have ne: "''a'' \<noteq> ''b''" "''b'' \<noteq> ''c''" "''a'' \<noteq> ''c''"
    by simp_all
  have J: "arrays ?s (tcCurrentChannels (objs ?s 0)) = [''b'', ''c'']"
    and D: "arrays ?s (channelsRef ?s) = [''a'', ''b'']"
    by simp_all
  have t: "trace (snd (syncClient (Some 0) ?s)) = trace ?s @ issued ?s (snd (syncClient (Some 0) ?s))"
    by (simp add: issued_def syncClient_effect)
  from reconcile_scenario_join_then_part [OF ne J D] t show ?thesis
    by simp
qed

text \<open>The order the scenario is stated with, \<^verbatim>\<open>part(c)\<close> before \<^verbatim>\<open>join(a)\<close>, is not the order of the calls.\<close>

theorem reconcile_scenario_order_counterexample:
  "issued (sessionsThen [''b'', ''c''] [''a'', ''b''])
     (snd (syncClient (Some 0) (sessionsThen [''b'', ''c''] [''a'', ''b''])))
     = [Transport 0 (Join ''a''), Transport 0 (Part (Some ''c''))] \<and>
   issued (sessionsThen [''b'', ''c''] [''a'', ''b''])
     (snd (syncClient (Some 0) (sessionsThen [''b'', ''c''] [''a'', ''b''])))
     \<noteq> [Transport 0 (Part (Some ''c'')), Transport 0 (Join ''a'')]"
  by (simp add: syncClient_issued partsFor_def)

lemma startup_invalid:
  "\<not> credentialsValid s \<Longrightarrow> clients s Read = None \<Longrightarrow> startup s = (None, s\<lparr>observing := True\<rparr>)"
  by (simp add: startup_def onBadLogin_def andThen_def done_ok_def)

lemma onChannelsChange_dead:
  "clients s Read = None \<Longrightarrow> newV \<noteq> oldV \<Longrightarrow> onChannelsChange newV oldV s = (Some TypeError, s)"
  by (simp add: onChannelsChange_def syncChannels_dead)

text \<open>
  C7: started with an empty password the factory creates no session. When the
  channel list then changes, the handler of \<^verbatim>\<open>onChannelsChange\<close> calls
  \<^verbatim>\<open>syncChannels\<close>, which issues no call and changes no state, but does not
  return: it raises a \<^verbatim>\<open>TypeError\<close> on the \<^verbatim>\<open>null\<close> client.
\<close>

theorem syncChannels_without_sessions_raises:
  "\<not> credentialsValid (initState ''bob'' [] [''a'']) \<and>
   (\<forall>key. clients (snd (startup (initState ''bob'' [] [''a'']))) key = None) \<and>
   onChannelsChange 0 1 (snd (startup (initState ''bob'' [] [''a''])))
     = (Some TypeError, snd (startup (initState ''bob'' [] [''a'']))) \<and>
   syncChannels (snd (startup (initState ''bob'' [] [''a''])))
     = (Some TypeError, snd (startup (initState ''bob'' [] [''a''])))"
proof -
  have inv: "\<not> credentialsValid (initState ''bob'' [] [''a''])"
    by (simp add: credentialsValid_def)
  then have st: "startup (initState ''bob'' [] [''a'']) = (None, (initState ''bob'' [] [''a''])\<lparr>observing := True\<rparr>)"
    by (simp add: startup_invalid)
  show ?thesis
    using inv by (simp add: st onChannelsChange_dead syncChannels_dead)
qed

section \<open>Event dispatch on the read client\<close>

lemma steady_refl [simp]: "steady s s"
  by (simp add: steady_def)

lemma steady_trans: "steady s t \<Longrightarrow> steady t u \<Longrightarrow> steady s u"
  by (auto simp: steady_def)

lemma steady_logEffect [simp]: "steady s (logEffect e s)"
  by (simp add: steady_def)

lemma steady_addListener [simp]: "steady s (addListener c h s)"
  by (simp add: steady_def configOf_def)

lemma steady_removeListener [simp]:
  "steady s (updClient c (\<lambda>cl. cl\<lparr>listeners := f cl\<rparr>) s)"
  by (simp add: steady_def configOf_def)

lemma steady_flags [simp]:
  "steady s (s\<lparr>ready := r\<rparr>)" "steady s (setBadLogin s)" "steady s (s\<lparr>cbCalls := n\<rparr>)"
  by (simp_all add: steady_def setBadLogin_def)

lemma destroyOne_config: "configOf (objs (destroyOne k s) c) = configOf (objs s c)"
  by (simp add: destroyOne_def configOf_def split: option.splits)

lemma steady_destroy [simp]: "steady s (destroy s)"
  by (simp add: steady_def) (simp add: destroy_unfold destroyOne_config)

lemma steady_andThen:
  assumes "\<And>t. steady t (snd (f t))" and "\<And>t. steady t (snd (g t))"
  shows "steady s (snd (andThen f g s))"
proof (cases "f s")
  case (Pair e t)
  with assms(1) [of s] have st: "steady s t" by simp
  show ?thesis
  proof (cases e)
    case None
    with Pair st assms(2) [of t] show ?thesis
      by (auto simp: andThen_def intro: steady_trans)
  next
    case (Some err)
    with Pair st show ?thesis by (simp add: andThen_def)
  qed
qed

lemma steady_onClient:
  "(\<And>c t. steady t (f c t)) \<Longrightarrow> steady s (snd (onClient k f s))"
  by (simp add: onClient_def done_ok_def throw_def split: option.splits)

lemma steady_runHandler: "steady s (snd (runHandler h args s))"
proof (cases h)
  case EmitDisconnectedOnce
  have "steady (logEffect (Emitted ''disconnected'' args) s)
          (snd (onClient Read (\<lambda>c. addListener c RearmDisconnected) (logEffect (Emitted ''disconnected'' args) s)))"
    by (rule steady_onClient) simp
  with EmitDisconnectedOnce show ?thesis
    by (auto intro: steady_trans [OF steady_logEffect])
next
  case BadLoginCheck
  have "steady s ((setBadLogin s)\<lparr>cbCalls := Suc (cbCalls s)\<rparr>)"
    by (simp add: steady_def setBadLogin_def)
  then have "steady s (destroy ((setBadLogin s)\<lparr>cbCalls := Suc (cbCalls s)\<rparr>))"
    by (rule steady_trans) simp
  with BadLoginCheck show ?thesis by (simp add: done_ok_def)
next
  case ReadDisconnected
  then show ?thesis
    by (simp add: done_ok_def steady_def setBadLogin_def)
qed (simp_all add: done_ok_def onlyEmitDisconnectedOnce_def steady_onClient)

lemma steady_runListeners: "steady s (snd (runListeners c hs args s))"
proof (induction hs arbitrary: s)
  case Nil
  show ?case by (simp add: done_ok_def)
next
  case (Cons h hs)
  let ?s1 = "if isOnce h then updClient c (\<lambda>cl. cl\<lparr>listeners := remove1 h (listeners cl)\<rparr>) s else s"
  have 1: "steady s ?s1" by simp
  have 2: "steady ?s1 (snd (andThen (runHandler h args) (runListeners c hs args) ?s1))"
    by (rule steady_andThen) (rule steady_runHandler, rule Cons.IH)
  from steady_trans [OF 1 2] show ?case by simp
qed

lemma steady_emitOn: "steady s (snd (emitOn c ev args s))"
  by (simp add: emitOn_def steady_runListeners)

lemma emitOn_silent: "listeners (objs s c) = [] \<Longrightarrow> emitOn c ev args s = (None, s)"
  by (simp add: emitOn_def listenersFor_def done_ok_def)

lemma outward_logEffect [simp]:
  "outward ev (logEffect e s) = (if isOutward ev e then Suc (outward ev s) else outward ev s)"
  by (simp add: outward_def)

lemma setBadLogin_fields [simp]:
  "arrays (setBadLogin s) = arrays s" "nextArr (setBadLogin s) = nextArr s"
  "objs (setBadLogin s) = objs s" "nextObj (setBadLogin s) = nextObj s"
  "clients (setBadLogin s) = clients s" "ready (setBadLogin s) = ready s"
  "badLogin (setBadLogin s) = Some badLoginReason" "username (setBadLogin s) = username s"
  "password (setBadLogin s) = []" "channelsRef (setBadLogin s) = channelsRef s"
  "trace (setBadLogin s) = trace s" "observing (setBadLogin s) = observing s"
  "pending (setBadLogin s) = pending s" "cbCalls (setBadLogin s) = cbCalls s"
  "transportIsMod (setBadLogin s) = transportIsMod s"
  by (simp_all add: setBadLogin_def)

lemma outward_cong [simp]:
  "outward ev (updClient c f s) = outward ev s"
  "outward ev (addListener c h s) = outward ev s"
  "outward ev (setBadLogin s) = outward ev s"
  "outward ev (ready_update fr s) = outward ev s"
  "outward ev (cbCalls_update fc s) = outward ev s"
  by (simp_all add: outward_def)

lemma outward_destroy [simp]: "outward ev (destroy s) = outward ev s"
  by (simp add: outward_def destroy_trace roles_def destroyedCalls_def split: option.splits)

lemma emit_disconnected_armed_ok:
  assumes "armed s c" and "\<not> isBadLogin args"
  shows "disarmed (snd (emitOn c ''disconnected'' args s)) c"
    and "outward ''disconnected'' (snd (emitOn c ''disconnected'' args s)) = Suc (outward ''disconnected'' s)"
  using assms
  by (auto simp: armed_def disarmed_def emitOn_def listenersFor_def andThen_def done_ok_def
      onClient_def filter_remove1)

lemma destroy_listeners_read:
  "clients s Read = Some c \<Longrightarrow> listeners (objs (destroy s) c) = []"
  by (auto simp: destroy_listeners)

lemma emit_disconnected_armed_any:
  assumes "armed s c"
  shows "outward ''disconnected'' (snd (emitOn c ''disconnected'' args s)) = Suc (outward ''disconnected'' s)"
    and "disarmed (snd (emitOn c ''disconnected'' args s)) c
         \<or> listeners (objs (snd (emitOn c ''disconnected'' args s)) c) = []"
  using assms
  by (cases "isBadLogin args";
      auto simp: armed_def disarmed_def emitOn_def listenersFor_def andThen_def done_ok_def
      throw_def onClient_def filter_remove1 destroy_listeners_read)+

lemma emit_disconnected_disarmed:
  assumes "disarmed s c"
  shows "outward ''disconnected'' (snd (emitOn c ''disconnected'' args s)) = outward ''disconnected'' s"
    and "disarmed (snd (emitOn c ''disconnected'' args s)) c
         \<or> listeners (objs (snd (emitOn c ''disconnected'' args s)) c) = []"
    and "\<not> isBadLogin args \<Longrightarrow> disarmed (snd (emitOn c ''disconnected'' args s)) c"
  using assms
  by (cases "isBadLogin args";
      auto simp: disarmed_def emitOn_def listenersFor_def andThen_def done_ok_def
      throw_def onClient_def filter_remove1 destroy_listeners_read)+

lemma emit_connected_disarmed:
  assumes "disarmed s c"
  shows "armed (snd (emitOn c ''connected'' args s)) c"
    and "outward ''disconnected'' (snd (emitOn c ''connected'' args s)) = outward ''disconnected'' s"
  using assms
  by (auto simp: armed_def disarmed_def emitOn_def listenersFor_def andThen_def done_ok_def
      throw_def onClient_def filter_remove1 onlyEmitDisconnectedOnce_def)

lemma notifyAll_silent:
  "listeners (objs s c) = [] \<Longrightarrow> notifyAll c ev payloads s = s"
  by (induction payloads) (simp_all add: emitOn_silent)

lemma notifyAll_disarmed:
  assumes "disarmed s c"
  shows "outward ''disconnected'' (notifyAll c ''disconnected'' payloads s) = outward ''disconnected'' s \<and>
         (list_all (\<lambda>args. \<not> isBadLogin args) payloads
            \<longrightarrow> disarmed (notifyAll c ''disconnected'' payloads s) c)"
  using assms
proof (induction payloads arbitrary: s)
  case Nil
  then show ?case by simp
next
  case (Cons args rest)
  let ?s1 = "snd (emitOn c ''disconnected'' args s)"
  note step = emit_disconnected_disarmed [OF Cons.prems, of args]
  from step(2) show ?case
  proof
    assume d: "disarmed ?s1 c"
    from Cons.IH [OF d] step(1) show ?thesis by simp
  next
    assume dead: "listeners (objs ?s1 c) = []"
    have "isBadLogin args"
    proof (rule ccontr)
      assume "\<not> isBadLogin args"
      from step(3) [OF this] dead show False
        by (simp add: disarmed_def listenersFor_def)
    qed
    with dead step(1) show ?thesis
      by (simp add: notifyAll_silent)
  qed
qed

lemma created_listenersFor:
  "listenersFor ''connected'' (nextObj s) (created s) = [Forward ''connected'', ReadConnected]"
  "listenersFor ''disconnected'' (nextObj s) (created s) = [ReadDisconnected, EmitDisconnectedOnce]"
  by (simp_all add: listenersFor_def created_read_client readEvents_def)

lemma armed_create: "armed (snd (create s)) (nextObj s)"
  by (simp add: armed_def create_eq created_listenersFor)

lemma listenersFor_addListener:
  "listenersFor ev c (addListener c h s) =
     listenersFor ev c s @ (if eventOf h = ev then [h] else [])"
  by (simp add: listenersFor_def)

lemma listenersFor_observing [simp]:
  "listenersFor ev c (observing_update f s) = listenersFor ev c s"
  "listenersFor ev c (pending_update g s) = listenersFor ev c s"
  by (simp_all add: listenersFor_def)

lemma startup_valid:
  "credentialsValid s \<Longrightarrow>
     startup s = (None, (addListener (nextObj s) BadLoginCheck (created s))\<lparr>observing := True\<rparr>)"
  by (simp add: startup_def onBadLogin_def andThen_def done_ok_def create_eq
      attachBadLoginCheck_def onClient_def)

lemma wired_startup:
  assumes "credentialsValid s"
  shows "armed (snd (startup s)) (nextObj s)"
    and "BadLoginCheck \<in> set (listeners (objs (snd (startup s)) (nextObj s)))"
  using assms
  by (simp_all add: startup_valid armed_def listenersFor_addListener created_listenersFor)

lemma deliver_after_create:
  assumes "observing s" and "pending s = []" and "\<And>k. clients s k = None"
  shows "deliverChanges (snd (create s)) =
           (None, addListener (nextObj s) BadLoginCheck ((created s)\<lparr>pending := []\<rparr>))"
proof -
  have "destroy s = s" using assms(3) by (rule destroy_dead)
  then have "pending (created s) = [Read, Write, Whisper]"
    using assms(1,2) by (simp add: created_def Let_def)
  then show ?thesis
    by (simp add: deliverChanges_def create_eq andThen_def done_ok_def
        attachBadLoginCheck_def onClient_def)
qed

lemma wired_deliver:
  assumes "observing s" and "pending s = []" and "\<And>k. clients s k = None"
  shows "armed (snd (deliverChanges (snd (create s)))) (nextObj s)"
    and "BadLoginCheck \<in> set (listeners (objs (snd (deliverChanges (snd (create s)))) (nextObj s)))"
  using created_listenersFor [of s]
  by (simp_all add: deliver_after_create [OF assms] armed_def listenersFor_def)

text \<open>
  C2: while the one-shot 'disconnected' listener of the read client is installed, any
  \<open>N \<ge> 1\<close> consecutive 'disconnected' notifications on that client make exactly one
  'disconnected' event on \<^verbatim>\<open>ee\<close>. When none of them was a failed login (which ends
  the session), a following 'connected' notification installs the listener again, and
  one further 'disconnected' notification makes exactly one more event.
\<close>

theorem disconnect_storm_emits_once:
  assumes "armed s c" and "payloads \<noteq> []"
  shows "outward ''disconnected'' (notifyAll c ''disconnected'' payloads s)
           = Suc (outward ''disconnected'' s) \<and>
         (list_all (\<lambda>args. \<not> isBadLogin args) payloads \<longrightarrow>
            armed (snd (emitOn c ''connected'' cargs (notifyAll c ''disconnected'' payloads s))) c \<and>
            outward ''disconnected''
              (snd (emitOn c ''disconnected'' dargs
                 (snd (emitOn c ''connected'' cargs (notifyAll c ''disconnected'' payloads s)))))
              = Suc (Suc (outward ''disconnected'' s)))"
proof -
  from assms(2) obtain args rest where p: "payloads = args # rest"
    by (cases payloads) auto
  let ?s1 = "snd (emitOn c ''disconnected'' args s)"
  let ?sN = "notifyAll c ''disconnected'' payloads s"
  have sN: "?sN = notifyAll c ''disconnected'' rest ?s1"
    by (simp add: p)
  note first = emit_disconnected_armed_any [OF assms(1), of args]
  have count: "outward ''disconnected'' ?sN = Suc (outward ''disconnected'' s)"
    using first(2)
  proof
    assume "disarmed ?s1 c"
    from notifyAll_disarmed [OF this, of rest] first(1) sN show ?thesis by simp
  next
    assume "listeners (objs ?s1 c) = []"
    then show ?thesis using first(1) sN by (simp add: notifyAll_silent)
  qed
  moreover
  { assume ok: "list_all (\<lambda>args. \<not> isBadLogin args) payloads"
    then have "\<not> isBadLogin args" and rest: "list_all (\<lambda>args. \<not> isBadLogin args) rest"
      by (simp_all add: p)
    then have "disarmed ?s1 c"
      using emit_disconnected_armed_ok(1) [OF assms(1)] by simp
    from notifyAll_disarmed [OF this, of rest] rest sN have dN: "disarmed ?sN c"
      by simp
    let ?sC = "snd (emitOn c ''connected'' cargs ?sN)"
    note re = emit_connected_disarmed [OF dN, of cargs]
    from emit_disconnected_armed_any(1) [OF re(1), of dargs] re(2) count
    have "outward ''disconnected'' (snd (emitOn c ''disconnected'' dargs ?sC))
            = Suc (Suc (outward ''disconnected'' s))"
      by simp
    with re(1) have "armed ?sC c \<and>
        outward ''disconnected'' (snd (emitOn c ''disconnected'' dargs ?sC))
            = Suc (Suc (outward ''disconnected'' s))"
      by simp }
  ultimately show ?thesis by blast
qed

lemma checked_forms:
  assumes "armed s c \<or> disarmed s c" and "BadLoginCheck \<in> set (listeners (objs s c))"
  shows "clients s Read = Some c \<and>
         listenersFor ''disconnected'' c s \<in>
           set [[ReadDisconnected, EmitDisconnectedOnce, BadLoginCheck],
                [ReadDisconnected, BadLoginCheck, EmitDisconnectedOnce],
                [ReadDisconnected, BadLoginCheck]]"
proof -
  from assms(2) have "BadLoginCheck \<in> set (listenersFor ''disconnected'' c s)"
    by (simp add: listenersFor_def)
  with assms(1) show ?thesis
    by (auto simp: armed_def disarmed_def)
qed

lemma emit_disconnected_checked_bad:
  assumes "clients s Read = Some c"
    and "listenersFor ''disconnected'' c s \<in>
           set [[ReadDisconnected, EmitDisconnectedOnce, BadLoginCheck],
                [ReadDisconnected, BadLoginCheck, EmitDisconnectedOnce],
                [ReadDisconnected, BadLoginCheck]]"
    and "isBadLogin args"
  shows "badLogin (snd (emitOn c ''disconnected'' args s)) = Some badLoginReason"
    and "password (snd (emitOn c ''disconnected'' args s)) = []"
    and "ready (snd (emitOn c ''disconnected'' args s)) = False"
    and "cbCalls (snd (emitOn c ''disconnected'' args s)) = Suc (cbCalls s)"
    and "clients (snd (emitOn c ''disconnected'' args s)) = (\<lambda>_. None)"
  using assms
  by (auto simp: emitOn_def andThen_def done_ok_def throw_def onClient_def)

lemma emit_disconnected_other:
  assumes "armed s c \<or> disarmed s c" and "\<not> isBadLogin args"
  shows "ready (snd (emitOn c ''disconnected'' args s)) = False"
    and "badLogin (snd (emitOn c ''disconnected'' args s)) = badLogin s"
    and "password (snd (emitOn c ''disconnected'' args s)) = password s"
    and "username (snd (emitOn c ''disconnected'' args s)) = username s"
    and "cbCalls (snd (emitOn c ''disconnected'' args s)) = cbCalls s"
    and "clients (snd (emitOn c ''disconnected'' args s)) = clients s"
  using assms
  by (auto simp: armed_def disarmed_def emitOn_def andThen_def done_ok_def throw_def onClient_def)

text \<open>
  C3: let the read client be wired as \<^verbatim>\<open>create\<close> and \<^verbatim>\<open>onBadLogin\<close> wire it. A
  'disconnected' notification whose reason is exactly \<open>''Login unsuccessful.''\<close>
  sets \<open>badLogin\<close> to that string, the stored password to the empty string and
  \<open>ready\<close> to false, and calls the callback bound to \<^verbatim>\<open>destroy\<close> exactly once, after
  which no key holds a client. With any other reason it sets \<open>ready\<close> to false and
  leaves \<open>badLogin\<close>, the identity, the callback count and the table of clients as
  they were.
\<close>

theorem bad_login_disconnect:
  assumes "armed s c \<or> disarmed s c" and "BadLoginCheck \<in> set (listeners (objs s c))"
  shows "(isBadLogin args \<longrightarrow>
            badLogin (snd (emitOn c ''disconnected'' args s)) = Some ''Login unsuccessful.'' \<and>
            password (snd (emitOn c ''disconnected'' args s)) = [] \<and>
            ready (snd (emitOn c ''disconnected'' args s)) = False \<and>
            cbCalls (snd (emitOn c ''disconnected'' args s)) = Suc (cbCalls s) \<and>
            (\<forall>key. clients (snd (emitOn c ''disconnected'' args s)) key = None)) \<and>
         (\<not> isBadLogin args \<longrightarrow>
            ready (snd (emitOn c ''disconnected'' args s)) = False \<and>
            badLogin (snd (emitOn c ''disconnected'' args s)) = badLogin s \<and>
            password (snd (emitOn c ''disconnected'' args s)) = password s \<and>
            username (snd (emitOn c ''disconnected'' args s)) = username s \<and>
            cbCalls (snd (emitOn c ''disconnected'' args s)) = cbCalls s \<and>
            clients (snd (emitOn c ''disconnected'' args s)) = clients s)"
proof -
  note forms = checked_forms [OF assms]
  from forms have r: "clients s Read = Some c" by blast
  from forms have f: "listenersFor ''disconnected'' c s \<in>
           set [[ReadDisconnected, EmitDisconnectedOnce, BadLoginCheck],
                [ReadDisconnected, BadLoginCheck, EmitDisconnectedOnce],
                [ReadDisconnected, BadLoginCheck]]" by blast
  show ?thesis
    using emit_disconnected_checked_bad [OF r f, of args] emit_disconnected_other [OF assms(1), of args]
    by (simp add: badLoginReason_def)
qed

lemma emit_connected_flags:
  assumes "armed s c \<or> disarmed s c"
  shows "ready (snd (emitOn c ''connected'' args s)) = True"
    and "badLogin (snd (emitOn c ''connected'' args s)) = badLogin s"
  using assms
  by (auto simp: armed_def disarmed_def emitOn_def andThen_def done_ok_def throw_def onClient_def
      onlyEmitDisconnectedOnce_def)

lemma started_facts:
  "armed started 0" "BadLoginCheck \<in> set (listeners (objs started 0))"
  "outward ''disconnected'' started = 0" "badLogin started = None" "password started = ''pw''"
  "username started = ''bob''" "cbCalls started = 0" "clients started Read = Some 0"
  "clients started Write = Some 1" "clients started Whisper = Some 2"
proof -
  have v: "credentialsValid (initState ''bob'' ''pw'' [''a''])"
    by (simp add: credentialsValid_def)
  from wired_startup [OF v] show "armed started 0" "BadLoginCheck \<in> set (listeners (objs started 0))"
    by simp_all
  show "outward ''disconnected'' started = 0" "badLogin started = None" "password started = ''pw''"
    "username started = ''bob''" "cbCalls started = 0" "clients started Read = Some 0"
    "clients started Write = Some 1" "clients started Whisper = Some 2"
    by (simp_all add: startup_valid [OF v] outward_def destroy_trace roles_def destroyedCalls_def)
qed

theorem bad_login_disconnect_witness:
  "(armed started 0 \<or> disarmed started 0) \<and>
   BadLoginCheck \<in> set (listeners (objs started 0)) \<and>
   isBadLogin [''Login unsuccessful.''] \<and>
   badLogin (snd (emitOn 0 ''disconnected'' [''Login unsuccessful.''] started))
     = Some ''Login unsuccessful.'' \<and>
   password (snd (emitOn 0 ''disconnected'' [''Login unsuccessful.''] started)) = [] \<and>
   ready (snd (emitOn 0 ''disconnected'' [''Login unsuccessful.''] started)) = False \<and>
   cbCalls (snd (emitOn 0 ''disconnected'' [''Login unsuccessful.''] started)) = 1 \<and>
   (\<forall>key. clients (snd (emitOn 0 ''disconnected'' [''Login unsuccessful.''] started)) key = None) \<and>
   \<not> isBadLogin [''Connection closed.''] \<and>
   ready (snd (emitOn 0 ''disconnected'' [''Connection closed.''] started)) = False \<and>
   badLogin (snd (emitOn 0 ''disconnected'' [''Connection closed.''] started)) = None \<and>
   password (snd (emitOn 0 ''disconnected'' [''Connection closed.''] started)) = ''pw'' \<and>
   cbCalls (snd (emitOn 0 ''disconnected'' [''Connection closed.''] started)) = 0 \<and>
   clients (snd (emitOn 0 ''disconnected'' [''Connection closed.''] started)) Read = Some 0"
proof -
  have w: "armed started 0 \<or> disarmed started 0"
    using started_facts(1) by simp
  have bad: "isBadLogin [''Login unsuccessful.'']" and ok: "\<not> isBadLogin [''Connection closed.'']"
    by (simp_all add: badLoginReason_def)
  from bad_login_disconnect [OF w started_facts(2), of "[''Login unsuccessful.'']"]
       bad_login_disconnect [OF w started_facts(2), of "[''Connection closed.'']"]
       w bad ok started_facts
  show ?thesis by simp
qed

theorem disconnect_storm_emits_once_witness:
  "armed started 0 \<and>
   [[''Connection closed.''], [''Unable to connect.''], [''Unable to connect.'']] \<noteq> [] \<and>
   list_all (\<lambda>args. \<not> isBadLogin args)
     [[''Connection closed.''], [''Unable to connect.''], [''Unable to connect.'']] \<and>
   outward ''disconnected''
     (notifyAll 0 ''disconnected''
        [[''Connection closed.''], [''Unable to connect.''], [''Unable to connect.'']] started) = 1 \<and>
   outward ''disconnected''
     (snd (emitOn 0 ''disconnected'' [''Connection closed.'']
        (snd (emitOn 0 ''connected'' [''irc.example'', ''80'']
           (notifyAll 0 ''disconnected''
              [[''Connection closed.''], [''Unable to connect.''], [''Unable to connect.'']] started))))) = 2"
proof -
  let ?ps = "[[''Connection closed.''], [''Unable to connect.''], [''Unable to connect.'']]"
  have ne: "?ps \<noteq> []" by simp
  have ok: "list_all (\<lambda>args. \<not> isBadLogin args) ?ps"
    by (simp add: badLoginReason_def)
  from disconnect_storm_emits_once [OF started_facts(1) ne, of "[''irc.example'', ''80'']" "[''Connection closed.'']"]
       ok started_facts(1,3)
  show ?thesis by simp
qed

section \<open>The session set and its tracked channel lists\<close>

lemma snd_andThen:
  "snd (andThen f g s) = (case fst (f s) of None \<Rightarrow> snd (g (snd (f s))) | Some e \<Rightarrow> snd (f s))"
  by (simp add: andThen_def split: prod.splits option.splits)

lemma syncChannels_fields [simp]:
  "nextArr (snd (syncChannels s)) = nextArr s"
  "objs (snd (syncChannels s)) = objs s" "nextObj (snd (syncChannels s)) = nextObj s"
  "clients (snd (syncChannels s)) = clients s" "ready (snd (syncChannels s)) = ready s"
  "badLogin (snd (syncChannels s)) = badLogin s" "username (snd (syncChannels s)) = username s"
  "password (snd (syncChannels s)) = password s" "channelsRef (snd (syncChannels s)) = channelsRef s"
  "observing (snd (syncChannels s)) = observing s"
  "pending (snd (syncChannels s)) = pending s" "cbCalls (snd (syncChannels s)) = cbCalls s"
  "transportIsMod (snd (syncChannels s)) = transportIsMod s"
  by (simp_all add: syncChannels_def snd_andThen split: option.splits)

lemma steady_say [simp]: "steady s (snd (say ch m s))"
  by (simp add: say_def steady_onClient)

lemma steady_whisper [simp]: "steady s (snd (whisper u m s))"
  by (simp add: whisper_def steady_onClient)

lemma steady_isMod [simp]: "steady s (snd (isMod ch u s))"
  by (simp add: isMod_def split: option.splits)

lemma steady_attach [simp]: "steady s (snd (attachBadLoginCheck s))"
  by (simp add: attachBadLoginCheck_def steady_onClient)

lemma steady_observerCallback: "steady s (snd (observerCallback names s))"
proof (induction names arbitrary: s)
  case Nil
  show ?case by (simp add: done_ok_def)
next
  case (Cons name rest)
  show ?case
  proof (cases "name = Read")
    case True
    have "steady s (snd (andThen attachBadLoginCheck (observerCallback rest) s))"
      by (rule steady_andThen) (simp, rule Cons.IH)
    with True show ?thesis by simp
  next
    case False
    with Cons.IH show ?thesis by simp
  qed
qed

lemma steady_pending [simp]: "steady s (s\<lparr>pending := p\<rparr>)" "steady s (s\<lparr>observing := b\<rparr>)"
  by (simp_all add: steady_def)

lemma steady_deliverChanges [simp]: "steady s (snd (deliverChanges s))"
  unfolding deliverChanges_def
  by (rule steady_trans [OF steady_pending(1) steady_observerCallback])

lemma steady_onBadLogin [simp]: "steady s (snd (onBadLogin s))"
  unfolding onBadLogin_def
  by (rule steady_andThen) (simp_all add: done_ok_def)

lemma steady_onInvalidCredentials [simp]: "steady s (snd (onInvalidCredentials newv oldv s))"
  by (simp add: onInvalidCredentials_def done_ok_def)

lemma allLive_created [simp]: "allLive (created s)"
  by (simp add: allLive_def roles_def)

lemma noneLive_destroy [simp]: "noneLive (destroy s)"
  by (simp add: noneLive_def roles_def)

lemma noneLive_iff: "noneLive s \<longleftrightarrow> clients s = (\<lambda>_. None)"
proof
  assume n: "noneLive s"
  show "clients s = (\<lambda>_. None)"
  proof
    fix k from n show "clients s k = None"
      by (cases k) (simp_all add: noneLive_def roles_def)
  qed
next
  assume "clients s = (\<lambda>_. None)"
  then show "noneLive s" by (simp add: noneLive_def roles_def)
qed

lemma allOrNone_steady: "steady s s' \<Longrightarrow> allOrNone s \<Longrightarrow> allOrNone s'"
  by (auto simp: steady_def allOrNone_def allLive_def noneLive_iff)

lemma allOrNone_same: "clients s' = clients s \<Longrightarrow> allOrNone s \<Longrightarrow> allOrNone s'"
  by (simp add: allOrNone_def allLive_def noneLive_def)

lemma startup_snd:
  "snd (startup s) = snd (onBadLogin (if credentialsValid s then created s else s))"
  by (simp add: startup_def snd_andThen create_eq done_ok_def)

lemma perform_allOrNone: "allOrNone s \<Longrightarrow> allOrNone (perform op s)"
proof (cases op)
  case OpCreate
  then show ?thesis by (simp add: create_eq allOrNone_def)
next
  case OpDestroy
  then show ?thesis by (simp add: allOrNone_def)
next
  case (OpValidCredentials newv oldv)
  assume "allOrNone s"
  with OpValidCredentials show ?thesis
    by (simp add: onValidCredentials_def create_eq done_ok_def allOrNone_def)
next
  case OpStartup
  assume a: "allOrNone s"
  let ?t = "if credentialsValid s then created s else s"
  from a have "allOrNone ?t" by (simp add: allOrNone_def)
  then have "allOrNone (snd (onBadLogin ?t))"
    by (rule allOrNone_steady [OF steady_onBadLogin])
  with OpStartup show ?thesis by (simp add: startup_snd)
next
  case (OpReplaceChannels xs)
  assume "allOrNone s"
  with OpReplaceChannels show ?thesis
    by (simp add: replaceChannels_def allocArray_def allOrNone_def allLive_def noneLive_def)
qed (auto intro: allOrNone_steady [OF steady_emitOn] allOrNone_steady [OF steady_say]
       allOrNone_steady [OF steady_whisper] allOrNone_steady [OF steady_isMod]
       allOrNone_steady [OF steady_deliverChanges] allOrNone_steady [OF steady_onBadLogin]
       allOrNone_steady [OF steady_onInvalidCredentials]
       allOrNone_same simp: onChannelsChange_def done_ok_def)

text \<open>
  C6: the session set is all or none. \<^verbatim>\<open>create\<close> returns normally with a new client
  under each of the three keys, having called \<^verbatim>\<open>connect\<close> exactly once on each (after
  the calls of the \<^verbatim>\<open>destroy\<close> it starts with); the read and write clients are
  configured with 'chat' and a copy of the channel list, the whisper client with 'group'
  and an empty list. After \<^verbatim>\<open>destroy\<close> no key holds a client. Every operation takes
  a state where all or none of the keys hold a client to such a state.
\<close>

theorem session_set_all_or_none:
  "fst (create s) = None \<and>
   clients (snd (create s)) Read = Some (nextObj s) \<and>
   clients (snd (create s)) Write = Some (Suc (nextObj s)) \<and>
   clients (snd (create s)) Whisper = Some (Suc (Suc (nextObj s))) \<and>
   allLive (snd (create s)) \<and>
   issued s (snd (create s)) =
     concat (map (\<lambda>key. destroyedCalls (clients s key)) roles)
     @ [Transport (nextObj s) Connect, Transport (Suc (nextObj s)) Connect,
        Transport (Suc (Suc (nextObj s))) Connect] \<and>
   connRandom (objs (snd (create s)) (nextObj s)) = ''chat'' \<and>
   arrays (snd (create s)) (optsChannels (objs (snd (create s)) (nextObj s)))
     = arrays s (channelsRef s) \<and>
   connRandom (objs (snd (create s)) (Suc (nextObj s))) = ''chat'' \<and>
   arrays (snd (create s)) (optsChannels (objs (snd (create s)) (Suc (nextObj s))))
     = arrays s (channelsRef s) \<and>
   connRandom (objs (snd (create s)) (Suc (Suc (nextObj s)))) = ''group'' \<and>
   arrays (snd (create s)) (optsChannels (objs (snd (create s)) (Suc (Suc (nextObj s))))) = [] \<and>
   noneLive (destroy s) \<and>
   (allOrNone s \<longrightarrow> allOrNone (perform op s))"
  using perform_allOrNone [of s op]
  by (simp add: create_eq issued_def destroy_trace created_read_client created_write_client
      created_whisper_client created_arrays)

theorem session_set_all_or_none_witness:
  "allOrNone started \<and>
   allOrNone (perform (OpEmit 0 ''disconnected'' [''Login unsuccessful.'']) started) \<and>
   allOrNone (perform OpDestroy started) \<and>
   allOrNone (perform OpCreate started)"
proof -
  have "allOrNone started"
    using started_facts(8-10) by (simp add: allOrNone_def allLive_def roles_def)
  with session_set_all_or_none [of started "OpEmit 0 ''disconnected'' [''Login unsuccessful.'']"]
       session_set_all_or_none [of started OpDestroy]
       session_set_all_or_none [of started OpCreate]
  show ?thesis by blast
qed

lemma configOf_tc: "configOf cl' = configOf cl \<Longrightarrow> tcCurrentChannels cl' = tcCurrentChannels cl"
  by (cases cl; cases cl') (simp add: configOf_def)

lemma frame_steady:
  assumes "steady s s'" and "tracked x c s"
  shows "tracked x c s' \<and> arrays s' x = arrays s x \<and>
         tcCurrentChannels (objs s' c) = tcCurrentChannels (objs s c)"
  using assms by (auto simp: steady_def tracked_def intro: configOf_tc)

lemma frame_created:
  assumes "tracked x c s"
  shows "tracked x c (created s) \<and> arrays (created s) x = arrays s x \<and>
         tcCurrentChannels (objs (created s) c) = tcCurrentChannels (objs s c)"
proof -
  from assms have c: "c < nextObj s" and x: "x < nextArr s"
    by (simp_all add: tracked_def)
  have "configOf (objs (destroy s) c) = configOf (objs s c)"
    using steady_destroy [of s] by (simp add: steady_def)
  then have "tcCurrentChannels (objs (destroy s) c) = tcCurrentChannels (objs s c)"
    by (rule configOf_tc)
  with assms c x show ?thesis
    by (simp add: tracked_def created_objs_old created_arrays)
qed

lemma perform_frame:
  assumes "tracked x c s" and "\<not> isReconcile op"
  shows "tracked x c (perform op s) \<and> arrays (perform op s) x = arrays s x \<and>
         tcCurrentChannels (objs (perform op s) c) = tcCurrentChannels (objs s c)"
proof (cases op)
  case OpCreate
  with frame_created [OF assms(1)] show ?thesis by (simp add: create_eq)
next
  case (OpValidCredentials newv oldv)
  with frame_created [OF assms(1)] assms(1) show ?thesis
    by (simp add: onValidCredentials_def create_eq done_ok_def)
next
  case OpStartup
  let ?t = "if credentialsValid s then created s else s"
  have t: "tracked x c ?t \<and> arrays ?t x = arrays s x \<and>
         tcCurrentChannels (objs ?t c) = tcCurrentChannels (objs s c)"
    using frame_created [OF assms(1)] assms(1) by simp
  then have "tracked x c ?t" by blast
  from frame_steady [OF steady_onBadLogin this] t OpStartup show ?thesis
    by (simp add: startup_snd)
next
  case (OpMutateChannels xs)
  with assms(1) show ?thesis by (simp add: tracked_def)
next
  case (OpReplaceChannels xs)
  with assms(1) show ?thesis
    by (auto simp: tracked_def replaceChannels_def allocArray_def)
next
  case (OpSetIdentity u p)
  with assms(1) show ?thesis by (simp add: tracked_def)
next
  case OpSyncChannels
  with assms(2) show ?thesis by simp
next
  case (OpChannelsChange newV oldV)
  with assms(2) show ?thesis by simp
next
  case OpDestroy
  with frame_steady [OF steady_destroy assms(1)] show ?thesis by simp
next
  case (OpInvalidCredentials newv oldv)
  with frame_steady [OF steady_onInvalidCredentials assms(1)] show ?thesis by simp
next
  case (OpEmit c' ev args)
  with frame_steady [OF steady_emitOn assms(1)] show ?thesis by simp
next
  case (OpSay ch m)
  with frame_steady [OF steady_say assms(1)] show ?thesis by simp
next
  case (OpWhisper u m)
  with frame_steady [OF steady_whisper assms(1)] show ?thesis by simp
next
  case (OpIsMod ch u)
  with frame_steady [OF steady_isMod assms(1)] show ?thesis by simp
next
  case OpDeliverChanges
  with frame_steady [OF steady_deliverChanges assms(1)] show ?thesis by simp
next
  case OpOnBadLogin
  with frame_steady [OF steady_onBadLogin assms(1)] show ?thesis by simp
qed

lemma performs_frame:
  assumes "tracked x c s" and "list_all (\<lambda>op. \<not> isReconcile op) ops"
  shows "arrays (fold perform ops s) x = arrays s x \<and>
         tcCurrentChannels (objs (fold perform ops s) c) = tcCurrentChannels (objs s c)"
  using assms
proof (induction ops arbitrary: s)
  case Nil
  show ?case by simp
next
  case (Cons op ops)
  from Cons.prems have "\<not> isReconcile op" and rest: "list_all (\<lambda>op. \<not> isReconcile op) ops"
    by simp_all
  from perform_frame [OF Cons.prems(1) this(1)] Cons.IH [OF _ rest, of "perform op s"]
  show ?case by simp
qed

lemma created_tracks:
  assumes "channelsRef s < nextArr s" and "clients (created s) key = Some c"
  shows "tracked (tcCurrentChannels (objs (created s) c)) c (created s)"
  using assms
  by (cases key)
     (auto simp: tracked_def created_read_client created_write_client created_whisper_client)

text \<open>
  C9: let \<^verbatim>\<open>settings.channels\<close> refer to an allocated array when \<^verbatim>\<open>create\<close> runs.
  Then the list each new client tracks is a new array of its own: it holds the elements
  of the client's configured channel list (those of the desired list for read and
  write, none for whisper), and it is neither the array \<^verbatim>\<open>settings.channels\<close> refers
  to, nor the client's configured array, nor an array of another client. Whatever
  happens afterwards except a reconciliation (changes of the desired list in place or
  by replacement among them) leaves its elements as they are.
\<close>

theorem tracked_channels_independent_copy:
  fixes s key c ops
  defines "s' \<equiv> snd (create s)"
  defines "tc \<equiv> tcCurrentChannels (objs s' c)"
  assumes "channelsRef s < nextArr s" and "clients s' key = Some c"
  shows "arrays s' tc = arrays s' (optsChannels (objs s' c)) \<and>
         arrays s' tc = (if key = Whisper then [] else arrays s (channelsRef s)) \<and>
         tc \<noteq> channelsRef s' \<and> tc \<noteq> optsChannels (objs s' c) \<and>
         (\<forall>key' c'. clients s' key' = Some c' \<and> key' \<noteq> key \<longrightarrow>
            tcCurrentChannels (objs s' c') \<noteq> tc \<and> optsChannels (objs s' c') \<noteq> tc) \<and>
         (list_all (\<lambda>op. \<not> isReconcile op) ops \<longrightarrow>
            arrays (fold perform ops s') tc = arrays s' tc \<and>
            tcCurrentChannels (objs (fold perform ops s') c) = tc)"
proof -
  have s': "s' = created s" by (simp add: s'_def create_eq)
  have tr: "tracked tc c s'"
    unfolding tc_def s' using assms(3) assms(4) [unfolded s'] by (rule created_tracks)
  have copy: "arrays s' tc = arrays s' (optsChannels (objs s' c)) \<and>
         arrays s' tc = (if key = Whisper then [] else arrays s (channelsRef s)) \<and>
         tc \<noteq> channelsRef s' \<and> tc \<noteq> optsChannels (objs s' c)"
    using assms(3,4) unfolding tc_def s'
    by (cases key)
       (auto simp: created_read_client created_write_client created_whisper_client created_arrays)
  have others: "tcCurrentChannels (objs s' c') \<noteq> tc \<and> optsChannels (objs s' c') \<noteq> tc"
    if "clients s' key' = Some c'" and "key' \<noteq> key" for key' c'
    using that assms(4) unfolding tc_def s'
    by (cases key; cases key')
       (auto simp: created_read_client created_write_client created_whisper_client)
  have frame: "list_all (\<lambda>op. \<not> isReconcile op) ops \<longrightarrow>
            arrays (fold perform ops s') tc = arrays s' tc \<and>
            tcCurrentChannels (objs (fold perform ops s') c) = tc"
    using performs_frame [OF tr, of ops] by (simp add: tc_def)
  from copy others frame show ?thesis
    by blast
qed

theorem tracked_channels_independent_copy_witness:
  "channelsRef (initState ''bob'' ''pw'' [''a'']) < nextArr (initState ''bob'' ''pw'' [''a'']) \<and>
   clients (snd (create (initState ''bob'' ''pw'' [''a'']))) Read = Some 0 \<and>
   list_all (\<lambda>op. \<not> isReconcile op) [OpMutateChannels [''a'', ''b''], OpReplaceChannels [''z'']] \<and>
   arrays (snd (create (initState ''bob'' ''pw'' [''a''])))
     (tcCurrentChannels (objs (snd (create (initState ''bob'' ''pw'' [''a'']))) 0)) = [''a''] \<and>
   arrays (fold perform [OpMutateChannels [''a'', ''b''], OpReplaceChannels [''z'']]
             (snd (create (initState ''bob'' ''pw'' [''a'']))))
     (tcCurrentChannels (objs (snd (create (initState ''bob'' ''pw'' [''a'']))) 0)) = [''a''] \<and>
   arrays (fold perform [OpMutateChannels [''a'', ''b'']]
             (snd (create (initState ''bob'' ''pw'' [''a'']))))
     (channelsRef (fold perform [OpMutateChannels [''a'', ''b'']]
             (snd (create (initState ''bob'' ''pw'' [''a'']))))) = [''a'', ''b'']"
proof -
  let ?s = "initState ''bob'' ''pw'' [''a'']"
  have a: "channelsRef ?s < nextArr ?s" by simp
  have r: "clients (snd (create ?s)) Read = Some 0" by simp
  have ok: "list_all (\<lambda>op. \<not> isReconcile op) [OpMutateChannels [''a'', ''b''], OpReplaceChannels [''z'']]"
    by simp
  from tracked_channels_independent_copy [OF a r, of "[OpMutateChannels [''a'', ''b''], OpReplaceChannels [''z'']]"]
       ok a r
  show ?thesis by simp
qed

section \<open>The states the factory reaches\<close>

lemma midDispatch_Nil: "midDispatch args [] s \<longleftrightarrow> quiet s"
  by (auto simp: midDispatch_def quiet_def)

lemma midDispatch_dead: "clients s Read = None \<Longrightarrow> midDispatch args hs s \<longleftrightarrow> quiet s"
  by (simp add: midDispatch_def quiet_def)

lemma checked_dead_forward:
  "checked s \<Longrightarrow> clients s Read = None \<Longrightarrow> list_all isForward (listeners (objs s c))"
  by (auto simp: checked_def)

lemma checked_read_has_check:
  "checked s \<Longrightarrow> listening s \<Longrightarrow> clients s Read = Some r
   \<Longrightarrow> BadLoginCheck \<in> set (listeners (objs s r))"
proof -
  assume c: "checked s" and l: "listening s" and r: "clients s Read = Some r"
  from l r have "ReadConnected \<in> set (listeners (objs s r))"
    by (simp add: listening_def)
  then have "\<not> list_all isForward (listeners (objs s r))"
    by (auto simp: list_all_iff intro!: bexI [where x = ReadConnected])
  with c show ?thesis
    unfolding checked_def by blast
qed

lemma checked_destroy: "checked s \<Longrightarrow> checked (destroy s)"
  by (auto simp: checked_def destroy_listeners)

lemma destroy_all_forward:
  "checked s \<Longrightarrow> list_all isForward (listeners (objs (destroy s) c))"
proof (cases "\<exists>k. clients s k = Some c")
  case True
  then show ?thesis by (simp add: destroy_listeners)
next
  case False
  assume "checked s"
  with False have "list_all isForward (listeners (objs s c))"
    by (auto simp: checked_def)
  with False show ?thesis by (simp add: destroy_listeners)
qed

lemma quiet_destroy: "observing s \<Longrightarrow> checked s \<Longrightarrow> quiet (destroy s)"
  by (simp add: quiet_def listening_def checked_def destroy_all_forward)

lemma checked_addListener:
  assumes "checked s" and "listening s" and "clients s Read = Some r"
  shows "checked (addListener r h s)"
proof -
  note has = checked_read_has_check [OF assms]
  show ?thesis
    unfolding checked_def
  proof
    fix c
    show "list_all isForward (listeners (objs (addListener r h s) c)) \<or>
          clients (addListener r h s) Read = Some c \<and>
          BadLoginCheck \<in> set (listeners (objs (addListener r h s) c))"
    proof (cases "c = r")
      case True
      with has assms(3) show ?thesis by simp
    next
      case False
      with assms(1) show ?thesis by (simp add: checked_def)
    qed
  qed
qed

lemma listening_addListener: "listening s \<Longrightarrow> listening (addListener c h s)"
  by (simp add: listening_def)

lemma checked_remove:
  assumes "checked s" and "h \<noteq> BadLoginCheck"
  shows "checked (updClient c (\<lambda>cl. cl\<lparr>listeners := remove1 h (listeners cl)\<rparr>) s)"
  unfolding checked_def
proof
  fix c'
  from assms(1) have "list_all isForward (listeners (objs s c')) \<or>
      clients s Read = Some c' \<and> BadLoginCheck \<in> set (listeners (objs s c'))"
    by (simp add: checked_def)
  then show "list_all isForward
          (listeners (objs (updClient c (\<lambda>cl. cl\<lparr>listeners := remove1 h (listeners cl)\<rparr>) s) c')) \<or>
        clients (updClient c (\<lambda>cl. cl\<lparr>listeners := remove1 h (listeners cl)\<rparr>) s) Read = Some c' \<and>
        BadLoginCheck \<in> set
          (listeners (objs (updClient c (\<lambda>cl. cl\<lparr>listeners := remove1 h (listeners cl)\<rparr>) s) c'))"
    using assms(2)
    by (auto simp: list_all_iff dest: notin_set_remove1)
qed

lemma listening_remove:
  assumes "listening s" and "h \<noteq> ReadConnected"
  shows "listening (updClient c (\<lambda>cl. cl\<lparr>listeners := remove1 h (listeners cl)\<rparr>) s)"
  using assms by (auto simp: listening_def)

lemma midDispatch_remove:
  assumes "midDispatch args hs s" and "isOnce h"
  shows "midDispatch args hs (updClient c (\<lambda>cl. cl\<lparr>listeners := remove1 h (listeners cl)\<rparr>) s)"
proof -
  from assms(2) have "h \<noteq> BadLoginCheck" "h \<noteq> ReadConnected" by auto
  with assms(1) show ?thesis
    by (simp add: midDispatch_def checked_remove listening_remove)
qed

lemma midDispatch_handler:
  assumes "midDispatch args (h # hs) s"
  shows "midDispatch args hs (snd (runHandler h args s))"
    and "fst (runHandler h args s) \<noteq> None \<Longrightarrow> clients (snd (runHandler h args s)) Read = None"
proof -
  from assms have obs: "observing s" and ch: "checked s" and li: "listening s"
    by (simp_all add: midDispatch_def)
  show "midDispatch args hs (snd (runHandler h args s))"
  proof (cases "clients s Read")
    case None
    note dead = None
    show ?thesis
    proof (cases h)
      case BadLoginCheck
      with obs ch dead show ?thesis
        using quiet_destroy [of "(setBadLogin s)\<lparr>cbCalls := Suc (cbCalls s)\<rparr>"] assms
        by (auto simp: done_ok_def midDispatch_dead checked_def)
    qed (use assms dead in \<open>auto simp: midDispatch_def done_ok_def throw_def onClient_def
          onlyEmitDisconnectedOnce_def checked_def listening_def\<close>)
  next
    case (Some r)
    note live = Some
    from assms live have pe: "pending s = []"
      and bl: "badLogin s = None \<or> isBadLogin args \<and> BadLoginCheck \<in> set (h # hs)"
      and rd: "ReadDisconnected \<in> set (h # hs) \<and> isBadLogin args \<longrightarrow> BadLoginCheck \<in> set (h # hs)"
      by (simp_all add: midDispatch_def)
    show ?thesis
    proof (cases h)
      case (Forward ev)
      with obs ch li live pe bl rd show ?thesis
        by (auto simp: midDispatch_def done_ok_def checked_def listening_def)
    next
      case ReadDisconnected
      with obs ch li live pe bl rd show ?thesis
        by (auto simp: midDispatch_def done_ok_def checked_def listening_def)
    next
      case ReadConnected
      with obs ch li live pe bl rd show ?thesis
        by (auto simp: midDispatch_def done_ok_def checked_def listening_def)
    next
      case EmitDisconnectedOnce
      let ?t = "logEffect (Emitted ''disconnected'' args) s"
      have "checked ?t" "listening ?t" "clients ?t Read = Some r"
        using ch li live by (simp_all add: checked_def listening_def)
      then have "checked (addListener r RearmDisconnected ?t)"
        and "listening (addListener r RearmDisconnected ?t)"
        by (simp_all add: checked_addListener listening_addListener)
      with EmitDisconnectedOnce obs live pe bl rd show ?thesis
        by (auto simp: midDispatch_def done_ok_def onClient_def)
    next
      case RearmDisconnected
      from ch li live have "checked (addListener r EmitDisconnectedOnce s)"
        and "listening (addListener r EmitDisconnectedOnce s)"
        by (simp_all add: checked_addListener listening_addListener)
      with RearmDisconnected obs live pe bl rd show ?thesis
        by (auto simp: midDispatch_def done_ok_def onClient_def onlyEmitDisconnectedOnce_def)
    next
      case BadLoginCheck
      show ?thesis
      proof (cases "isBadLogin args")
        case True
        have "checked ((setBadLogin s)\<lparr>cbCalls := Suc (cbCalls s)\<rparr>)"
          using ch by (simp add: checked_def)
        with obs have "quiet (destroy ((setBadLogin s)\<lparr>cbCalls := Suc (cbCalls s)\<rparr>))"
          by (intro quiet_destroy) simp_all
        with True BadLoginCheck show ?thesis
          by (simp add: done_ok_def midDispatch_dead)
      next
        case False
        with BadLoginCheck obs ch li live pe bl rd show ?thesis
          by (auto simp: midDispatch_def done_ok_def)
      qed
    qed
  qed
  show "clients (snd (runHandler h args s)) Read = None" if "fst (runHandler h args s) \<noteq> None"
    using that
    by (cases h)
       (auto simp: done_ok_def throw_def onClient_def onlyEmitDisconnectedOnce_def
          split: option.splits)
qed

lemma quiet_runListeners:
  "midDispatch args hs s \<Longrightarrow> quiet (snd (runListeners c hs args s))"
proof (induction hs arbitrary: s)
  case Nil
  then show ?case by (simp add: done_ok_def midDispatch_Nil)
next
  case (Cons h hs)
  let ?s1 = "if isOnce h then updClient c (\<lambda>cl. cl\<lparr>listeners := remove1 h (listeners cl)\<rparr>) s else s"
  from Cons.prems have m1: "midDispatch args (h # hs) ?s1"
    by (simp add: midDispatch_remove)
  obtain e s2 where r: "runHandler h args ?s1 = (e, s2)"
    by (cases "runHandler h args ?s1")
  from midDispatch_handler [OF m1] r have m2: "midDispatch args hs s2"
    and thrown: "e \<noteq> None \<Longrightarrow> clients s2 Read = None"
    by simp_all
  show ?case
  proof (cases e)
    case None
    with r Cons.IH [OF m2] show ?thesis
      by (simp add: andThen_def)
  next
    case (Some err)
    with thrown have "clients s2 Read = None" by simp
    with m2 have "quiet s2" by (simp add: midDispatch_dead)
    with Some r show ?thesis
      by (simp add: andThen_def)
  qed
qed

lemma settled_midDispatch:
  assumes "settled s"
  shows "midDispatch args (listenersFor ev c s) s"
proof -
  from assms have q: "observing s" "checked s" "listening s" "pending s = []"
    and b: "clients s Read \<noteq> None \<longrightarrow> badLogin s = None"
    by (simp_all add: settled_def quiet_def)
  have "BadLoginCheck \<in> set (listenersFor ev c s)"
    if "ReadDisconnected \<in> set (listenersFor ev c s)"
  proof -
    from that have in_c: "ReadDisconnected \<in> set (listeners (objs s c))" and ev: "ev = ''disconnected''"
      by (auto simp: listenersFor_def)
    then have "\<not> list_all isForward (listeners (objs s c))"
      by (auto simp: list_all_iff intro!: bexI [where x = ReadDisconnected])
    with q(2) have "BadLoginCheck \<in> set (listeners (objs s c))"
      unfolding checked_def by blast
    with ev show ?thesis by (simp add: listenersFor_def)
  qed
  with q b show ?thesis
    by (auto simp: midDispatch_def)
qed

lemma quiet_emitOn: "settled s \<Longrightarrow> quiet (snd (emitOn c ev args s))"
  unfolding emitOn_def by (rule quiet_runListeners) (rule settled_midDispatch)

lemma observerCallback_dead:
  "clients s Read = None \<Longrightarrow> snd (observerCallback names s) = s"
  by (induction names)
     (simp_all add: done_ok_def andThen_def attachBadLoginCheck_def onClient_def throw_def)

lemma settled_deliver:
  assumes "quiet s"
  shows "settled (snd (deliverChanges s))"
proof (cases "clients s Read")
  case None
  then have "snd (deliverChanges s) = s\<lparr>pending := []\<rparr>"
    by (simp add: deliverChanges_def observerCallback_dead)
  with assms None show ?thesis
    by (simp add: settled_def quiet_def checked_def listening_def)
next
  case (Some r)
  with assms have "pending s = []" by (simp add: quiet_def)
  then have "snd (deliverChanges s) = s\<lparr>pending := []\<rparr>"
    by (simp add: deliverChanges_def done_ok_def)
  with assms show ?thesis
    by (simp add: settled_def quiet_def checked_def listening_def)
qed

lemma connected_dispatch:
  assumes "\<forall>h\<in>set hs. eventOf h = ''connected''" and "clients s Read = Some r"
  shows "badLogin (snd (runListeners c hs args s)) = badLogin s \<and>
         ready (snd (runListeners c hs args s)) = (if ReadConnected \<in> set hs then True else ready s)"
  using assms
proof (induction hs arbitrary: s)
  case Nil
  show ?case by (simp add: done_ok_def)
next
  case (Cons h hs)
  from Cons.prems have ev: "eventOf h = ''connected''" and rest: "\<forall>h\<in>set hs. eventOf h = ''connected''"
    by simp_all
  show ?case
  proof (cases h)
    case (Forward e)
    with Cons.IH [OF rest, of "logEffect (Emitted e args) s"] Cons.prems(2) show ?thesis
      by (simp add: andThen_def done_ok_def)
  next
    case ReadConnected
    with Cons.IH [OF rest, of "s\<lparr>ready := True\<rparr>"] Cons.prems(2) show ?thesis
      by (simp add: andThen_def done_ok_def)
  next
    case RearmDisconnected
    let ?s1 = "updClient c (\<lambda>cl. cl\<lparr>listeners := remove1 RearmDisconnected (listeners cl)\<rparr>) s"
    from Cons.IH [OF rest, of "addListener r EmitDisconnectedOnce ?s1"] Cons.prems(2) RearmDisconnected
    show ?thesis
      by (simp add: andThen_def done_ok_def onlyEmitDisconnectedOnce_def onClient_def)
  qed (use ev in simp_all)
qed

lemma settled_live_intro:
  assumes "observing u" and "pending u = []" and "clients u Read = Some r"
    and "BadLoginCheck \<in> set (listeners (objs u r))"
    and "ReadConnected \<in> set (listeners (objs u r))"
    and "\<And>c. c \<noteq> r \<Longrightarrow> list_all isForward (listeners (objs u c))"
    and "badLogin u = None"
  shows "settled u"
proof -
  have "checked u"
    unfolding checked_def
  proof
    fix c
    show "list_all isForward (listeners (objs u c)) \<or>
          clients u Read = Some c \<and> BadLoginCheck \<in> set (listeners (objs u c))"
      using assms(3,4) assms(6) [of c] by (cases "c = r") simp_all
  qed
  moreover have "listening u"
    using assms(3,5) by (simp add: listening_def)
  ultimately show ?thesis
    using assms(1,2,7) by (simp add: settled_def quiet_def)
qed

lemma observerCallback_live:
  "clients s Read = Some r \<Longrightarrow>
   observerCallback names s =
     (None, fold (\<lambda>name. if name = Read then addListener r BadLoginCheck else id) names s)"
  by (induction names arbitrary: s)
     (simp_all add: done_ok_def andThen_def attachBadLoginCheck_def onClient_def)

lemma attachAll_fields:
  fixes r names
  defines "attachAll \<equiv> fold (\<lambda>name. if name = Read then addListener r BadLoginCheck else id) names"
  shows "clients (attachAll s) = clients s" "badLogin (attachAll s) = badLogin s"
    "pending (attachAll s) = pending s" "observing (attachAll s) = observing s"
    "listeners (objs (attachAll s) c) =
       listeners (objs s c) @ (if c = r then replicate (count_list names Read) BadLoginCheck else [])"
  unfolding attachAll_def
  by (induction names arbitrary: s; simp add: replicate_app_Cons_same)+

lemma settled_deliver_live:
  assumes "observing u" and "clients u Read = Some r"
    and "Read \<in> set (pending u) \<or> BadLoginCheck \<in> set (listeners (objs u r))"
    and "ReadConnected \<in> set (listeners (objs u r))"
    and "\<And>c. c \<noteq> r \<Longrightarrow> list_all isForward (listeners (objs u c))"
    and "badLogin u = None"
  shows "settled (snd (deliverChanges u))"
proof -
  let ?t = "fold (\<lambda>name. if name = Read then addListener r BadLoginCheck else id) (pending u)
              (u\<lparr>pending := []\<rparr>)"
  have t: "snd (deliverChanges u) = ?t"
    using assms(2) by (simp add: deliverChanges_def observerCallback_live)
  have "Read \<in> set (pending u) \<Longrightarrow> 0 < count_list (pending u) Read"
    using count_list_0_iff [of "pending u" Read] by auto
  with assms(3) have "BadLoginCheck \<in> set (listeners (objs ?t r))"
    by (auto simp: attachAll_fields)
  then show ?thesis
    unfolding t using assms
    by (intro settled_live_intro [where r = r]) (simp_all add: attachAll_fields)
qed

lemma created_objs_other:
  "c \<noteq> nextObj s \<Longrightarrow> c \<noteq> Suc (nextObj s) \<Longrightarrow> c \<noteq> Suc (Suc (nextObj s))
   \<Longrightarrow> objs (created s) c = objs (destroy s) c"
  by (simp add: created_def Let_def)

lemma created_forward_only:
  assumes "checked s" and "c \<noteq> nextObj s"
  shows "list_all isForward (listeners (objs (created s) c))"
proof -
  consider "c = Suc (nextObj s)" | "c = Suc (Suc (nextObj s))"
    | "c \<noteq> nextObj s" "c \<noteq> Suc (nextObj s)" "c \<noteq> Suc (Suc (nextObj s))"
    using assms(2) by blast
  then show ?thesis
  proof cases
    case 1
    then show ?thesis by (simp add: created_write_client)
  next
    case 2
    then show ?thesis by (simp add: created_whisper_client)
  next
    case 3
    with assms(1) show ?thesis
      by (simp add: created_objs_other destroy_all_forward)
  qed
qed

lemma created_pending: "observing s \<Longrightarrow> Read \<in> set (pending (created s))"
  by (simp add: created_def Let_def)

lemma settled_create:
  assumes "observing s" and "checked s"
  shows "settled (snd (deliverChanges (created s)))"
  using assms
  by (intro settled_deliver_live [where r = "nextObj s"])
     (simp_all add: created_pending created_read_client created_forward_only)

lemma onBadLogin_snd:
  "snd (onBadLogin s) =
     (case clients s Read of None \<Rightarrow> s | Some r \<Rightarrow> addListener r BadLoginCheck s)\<lparr>observing := True\<rparr>"
  by (simp add: onBadLogin_def andThen_def done_ok_def attachBadLoginCheck_def onClient_def
      split: option.splits)

lemma quiet_onBadLogin:
  assumes "quiet s"
  shows "quiet (snd (onBadLogin s))"
proof (cases "clients s Read")
  case None
  with assms show ?thesis
    by (simp add: onBadLogin_snd quiet_def checked_def listening_def)
next
  case (Some r)
  from assms have "checked s" "listening s" by (simp_all add: quiet_def)
  from checked_addListener [OF this Some] listening_addListener [OF this(2)]
  have "checked (addListener r BadLoginCheck s)" "listening (addListener r BadLoginCheck s)"
    by simp_all
  then have "checked ((addListener r BadLoginCheck s)\<lparr>observing := True\<rparr>)"
    and "listening ((addListener r BadLoginCheck s)\<lparr>observing := True\<rparr>)"
    by (simp_all add: checked_def listening_def)
  with assms Some show ?thesis
    by (simp add: onBadLogin_snd quiet_def)
qed

lemma settled_startup_created:
  assumes "checked s"
  shows "settled (snd (deliverChanges (snd (onBadLogin (created s)))))"
proof -
  let ?u = "(addListener (nextObj s) BadLoginCheck (created s))\<lparr>observing := True\<rparr>"
  have u: "snd (onBadLogin (created s)) = ?u"
    by (simp add: onBadLogin_snd)
  have "settled (snd (deliverChanges ?u))"
    using assms
    by (intro settled_deliver_live [where r = "nextObj s"])
       (simp_all add: created_read_client created_forward_only)
  with u show ?thesis by simp
qed

lemma quiet_same:
  assumes "quiet s" and "observing t = observing s" and "objs t = objs s"
    and "clients t = clients s" and "pending t = pending s" and "badLogin t = badLogin s"
  shows "quiet t"
  using assms by (simp add: quiet_def checked_def listening_def)

lemma quiet_perform:
  assumes "settled s"
  shows "settled (turn op s)"
proof -
  from assms have q: "quiet s" and obs: "observing s" and ch: "checked s"
    by (simp_all add: settled_def quiet_def)
  note same = settled_deliver [OF quiet_same [OF q]]
  show ?thesis
  proof (cases op)
    case OpCreate
    with settled_create [OF obs ch] show ?thesis by (simp add: turn_def create_eq)
  next
    case OpDestroy
    with settled_deliver [OF quiet_destroy [OF obs ch]] show ?thesis by (simp add: turn_def)
  next
    case OpSyncChannels
    have "settled (snd (deliverChanges (snd (syncChannels s))))"
      by (rule same) simp_all
    with OpSyncChannels show ?thesis by (simp add: turn_def)
  next
    case (OpChannelsChange newV oldV)
    have "settled (snd (deliverChanges (snd (onChannelsChange newV oldV s))))"
      by (rule same) (simp_all add: onChannelsChange_def done_ok_def)
    with OpChannelsChange show ?thesis by (simp add: turn_def)
  next
    case (OpValidCredentials newv oldv)
    show ?thesis
    proof (cases "oldv \<noteq> newv \<and> newv")
      case True
      with OpValidCredentials settled_create [OF obs ch] show ?thesis
        by (simp add: turn_def onValidCredentials_def create_eq)
    next
      case False
      with OpValidCredentials settled_deliver [OF q] show ?thesis
        by (auto simp: turn_def onValidCredentials_def done_ok_def)
    qed
  next
    case (OpInvalidCredentials newv oldv)
    show ?thesis
    proof (cases "oldv \<noteq> newv \<and> \<not> newv")
      case True
      with OpInvalidCredentials settled_deliver [OF quiet_destroy [OF obs ch]] show ?thesis
        by (simp add: turn_def onInvalidCredentials_def done_ok_def)
    next
      case False
      with OpInvalidCredentials settled_deliver [OF q] show ?thesis
        by (auto simp: turn_def onInvalidCredentials_def done_ok_def)
    qed
  next
    case (OpEmit c ev args)
    with settled_deliver [OF quiet_emitOn [OF assms]] show ?thesis by (simp add: turn_def)
  next
    case (OpSay ch m)
    have "settled (snd (deliverChanges (snd (say ch m s))))"
      by (rule same)
         (simp_all add: say_def onClient_def done_ok_def throw_def split: option.splits)
    with OpSay show ?thesis by (simp add: turn_def)
  next
    case (OpWhisper u m)
    have "settled (snd (deliverChanges (snd (whisper u m s))))"
      by (rule same)
         (simp_all add: whisper_def onClient_def done_ok_def throw_def split: option.splits)
    with OpWhisper show ?thesis by (simp add: turn_def)
  next
    case (OpIsMod ch u)
    have "settled (snd (deliverChanges (snd (isMod ch u s))))"
      by (rule same) (simp_all add: isMod_def split: option.splits)
    with OpIsMod show ?thesis by (simp add: turn_def)
  next
    case OpDeliverChanges
    from settled_deliver [OF q] have "quiet (snd (deliverChanges s))"
      by (simp add: settled_def)
    from settled_deliver [OF this] OpDeliverChanges show ?thesis by (simp add: turn_def)
  next
    case OpOnBadLogin
    with settled_deliver [OF quiet_onBadLogin [OF q]] show ?thesis by (simp add: turn_def)
  next
    case OpStartup
    show ?thesis
    proof (cases "credentialsValid s")
      case True
      with OpStartup settled_startup_created [OF ch] show ?thesis
        by (simp add: turn_def startup_snd)
    next
      case False
      with OpStartup settled_deliver [OF quiet_onBadLogin [OF q]] show ?thesis
        by (simp add: turn_def startup_snd)
    qed
  next
    case (OpMutateChannels xs)
    have "settled (snd (deliverChanges (mutateChannels xs s)))"
      by (rule same) simp_all
    with OpMutateChannels show ?thesis by (simp add: turn_def)
  next
    case (OpReplaceChannels xs)
    have "settled (snd (deliverChanges (replaceChannels xs s)))"
      by (rule same) (simp_all add: replaceChannels_def allocArray_def)
    with OpReplaceChannels show ?thesis by (simp add: turn_def)
  next
    case (OpSetIdentity u p)
    have "settled (snd (deliverChanges (s\<lparr>username := u, password := p\<rparr>)))"
      by (rule same) simp_all
    with OpSetIdentity show ?thesis by (simp add: turn_def)
  qed
qed

lemma checked_initState: "checked (initState u p chans)"
  by (simp add: checked_def initState_def blankClient_def)

lemma settled_startup: "settled (snd (startup (initState u p chans)))"
proof (cases "credentialsValid (initState u p chans)")
  case True
  let ?i = "initState u p chans"
  let ?t = "(addListener 0 BadLoginCheck (created ?i))\<lparr>observing := True\<rparr>"
  have t: "snd (startup ?i) = ?t"
    using startup_valid [OF True] by simp
  have "pending (created ?i) = []"
    by (simp add: created_def Let_def destroy_dead)
  moreover have "list_all isForward (listeners (objs (created ?i) c))" if "c \<noteq> 0" for c
    using created_forward_only [OF checked_initState, of c u p chans] that by simp
  moreover have "listeners (objs (created ?i) 0) =
      map Forward readEvents @ [ReadDisconnected, ReadConnected, EmitDisconnectedOnce]"
    using created_read_client [of ?i] by simp
  ultimately have "settled ?t"
    by (intro settled_live_intro [where r = 0]) simp_all
  with t show ?thesis by simp
next
  case False
  then have "snd (startup (initState u p chans)) = (initState u p chans)\<lparr>observing := True\<rparr>"
    by (simp add: startup_invalid)
  then show ?thesis
    by (simp add: settled_def quiet_def checked_def listening_def initState_def blankClient_def)
qed

lemma settled_turns: "settled s \<Longrightarrow> settled (fold turn ops s)"
  by (induction ops arbitrary: s) (simp_all add: quiet_perform)

lemma settled_read_client:
  assumes "settled s"
    and "clients s Read = Some c \<or> ReadConnected \<in> set (listeners (objs s c))"
  shows "clients s Read = Some c" and "ReadConnected \<in> set (listeners (objs s c))"
    and "badLogin s = None"
proof -
  from assms(1) have ch: "checked s" and li: "listening s"
    and b: "clients s Read \<noteq> None \<longrightarrow> badLogin s = None"
    by (simp_all add: settled_def quiet_def)
  show r: "clients s Read = Some c"
    using assms(2)
  proof
    assume "ReadConnected \<in> set (listeners (objs s c))"
    then have "\<not> list_all isForward (listeners (objs s c))"
      by (auto simp: list_all_iff intro!: bexI [where x = ReadConnected])
    with ch show ?thesis unfolding checked_def by blast
  qed
  with li show "ReadConnected \<in> set (listeners (objs s c))"
    by (simp add: listening_def)
  from r b show "badLogin s = None" by simp
qed

text \<open>
  C5: in every state the factory is in between turns (after its start with any identity
  and channel list, and any sequence of turns), a 'connected' notification on the read
  client, which is the client that has the 'connected' handler of \<^verbatim>\<open>create\<close>, ends
  with \<open>ready\<close> true and \<open>badLogin\<close> false.
\<close>

theorem connected_sets_ready_and_badLogin:
  fixes user pass chans ops c args
  defines "s \<equiv> fold turn ops (snd (startup (initState user pass chans)))"
  assumes "clients s Read = Some c \<or> ReadConnected \<in> set (listeners (objs s c))"
  shows "ready (snd (emitOn c ''connected'' args s)) = True \<and>
         badLogin (snd (emitOn c ''connected'' args s)) = None"
proof -
  have st: "settled s"
    unfolding s_def by (rule settled_turns) (rule settled_startup)
  note rc = settled_read_client [OF st assms(2)]
  have "\<forall>h\<in>set (listenersFor ''connected'' c s). eventOf h = ''connected''"
    by (simp add: listenersFor_def)
  from connected_dispatch [OF this rc(1)] rc(2,3) show ?thesis
    by (simp add: emitOn_def listenersFor_def)
qed

theorem connected_sets_ready_and_badLogin_witness:
  "(clients (fold turn [OpMutateChannels [''b''], OpSay ''b'' ''hi''] started) Read = Some 0
      \<or> ReadConnected \<in> set (listeners
            (objs (fold turn [OpMutateChannels [''b''], OpSay ''b'' ''hi''] started) 0))) \<and>
   ready (snd (emitOn 0 ''connected'' [''irc.example'', ''80'']
     (fold turn [OpMutateChannels [''b''], OpSay ''b'' ''hi''] started))) = True \<and>
   badLogin (snd (emitOn 0 ''connected'' [''irc.example'', ''80'']
     (fold turn [OpMutateChannels [''b''], OpSay ''b'' ''hi''] started))) = None"
proof -
  let ?ops = "[OpMutateChannels [''b''], OpSay ''b'' ''hi'']"
  have v: "credentialsValid (initState ''bob'' ''pw'' [''a''])"
    by (simp add: credentialsValid_def)
  have p: "pending started = []"
    by (simp add: startup_valid [OF v] created_def Let_def destroy_dead)
  have quietTurn: "clients (snd (deliverChanges t)) = clients t" if "pending t = []" for t
    using that by (simp add: deliverChanges_def done_ok_def)
  have pendingTurn: "pending (snd (deliverChanges t)) = []" if "pending t = []" for t
    using that by (simp add: deliverChanges_def done_ok_def)
  have "clients (fold turn ?ops started) Read = Some 0"
    using p started_facts(8,9)
    by (simp add: turn_def quietTurn pendingTurn say_def onClient_def done_ok_def)
  then have r: "clients (fold turn ?ops started) Read = Some 0
      \<or> ReadConnected \<in> set (listeners (objs (fold turn ?ops started) 0))"
    by simp
  from connected_sets_ready_and_badLogin [OF r, of "[''irc.example'', ''80'']"] r
  show ?thesis by simp
qed

end
